theory Spec2Isabelle
  imports Main
begin

section \<open>Python strings and integers\<close>

text \<open>
  The table renderer \<^verbatim>\<open>scripts/render-table.py\<close> works on Python strings. A string is
  modelled as a \<^typ>\<open>char list\<close>; a \<^typ>\<open>char\<close> stands for a code point below 256.
  Exceptions are values of the type \<open>error\<close>; a function that can raise returns
  \<open>error + 'a\<close>, with \<open>Inl\<close> for the exception.
\<close>

datatype error =
    AssertionError
  | ValueError
  | KeyError
  | TypeError
  | AttributeError
  | StopIteration
  | InvalidOperation
  | DivisionByZero
  | Overflow

abbreviation bslash :: char where "bslash \<equiv> CHR 0x5C"
abbreviation newline :: char where "newline \<equiv> CHR 0x0A"

text \<open>\<^verbatim>\<open>str.isspace\<close> on the code points below 256.\<close>

definition is_space :: "char \<Rightarrow> bool" where
  "is_space c = (of_char c \<in> set [9, 10, 11, 12, 13, 28, 29, 30, 31, 32, 133, 160 :: nat])"

definition is_digit :: "char \<Rightarrow> bool" where
  "is_digit c = (c \<in> set ''0123456789'')"

text \<open>\<^verbatim>\<open>s.strip()\<close> and \<^verbatim>\<open>s.strip(chars)\<close>.\<close>

definition strip_pred :: "(char \<Rightarrow> bool) \<Rightarrow> string \<Rightarrow> string" where
  "strip_pred p s = rev (dropWhile p (rev (dropWhile p s)))"

definition strip :: "string \<Rightarrow> string" where
  "strip s = strip_pred is_space s"

definition strip_chars :: "string \<Rightarrow> string \<Rightarrow> string" where
  "strip_chars chars s = strip_pred (\<lambda>c. c \<in> set chars) s"

text \<open>\<^verbatim>\<open>s.startswith(p)\<close> and \<^verbatim>\<open>s.endswith(p)\<close>.\<close>

definition startswith :: "string \<Rightarrow> string \<Rightarrow> bool" where
  "startswith s p = (take (length p) s = p)"

definition endswith :: "string \<Rightarrow> string \<Rightarrow> bool" where
  "endswith s p = (length p \<le> length s \<and> drop (length s - length p) s = p)"

text \<open>
  \<^verbatim>\<open>s.replace(old, new)\<close>: the occurrences of \<open>old\<close> are replaced from left to right,
  without overlap. For an empty \<open>old\<close> Python puts \<open>new\<close> before every character and at
  the end.
\<close>

function replace :: "string \<Rightarrow> string \<Rightarrow> string \<Rightarrow> string" where
  "replace old new s =
     (if old = [] then new @ concat (map (\<lambda>c. c # new) s)
      else if s = [] then []
      else if take (length old) s = old then new @ replace old new (drop (length old) s)
      else hd s # replace old new (tl s))"
  by pat_completeness auto
termination
  by (relation "measure (\<lambda>(old, new, s). length s)") auto

declare replace.simps [simp del]

text \<open>\<^verbatim>\<open>s.split(sep)\<close> for a one-character separator, and with \<^verbatim>\<open>maxsplit\<close>.\<close>

fun str_split :: "char \<Rightarrow> string \<Rightarrow> string list" where
  "str_split sep [] = [[]]"
| "str_split sep (c # cs) =
     (if c = sep then [] # str_split sep cs
      else (case str_split sep cs of
              [] \<Rightarrow> [[c]]
            | w # ws \<Rightarrow> (c # w) # ws))"

fun str_split_max :: "nat \<Rightarrow> char \<Rightarrow> string \<Rightarrow> string list" where
  "str_split_max 0 sep s = [s]"
| "str_split_max (Suc n) sep [] = [[]]"
| "str_split_max (Suc n) sep (c # cs) =
     (if c = sep then [] # str_split_max n sep cs
      else (case str_split_max (Suc n) sep cs of
              [] \<Rightarrow> [[c]]
            | w # ws \<Rightarrow> (c # w) # ws))"

text \<open>\<^verbatim>\<open>s.split(sep)\<close> for a separator of any positive length.\<close>

function str_split_on :: "string \<Rightarrow> string \<Rightarrow> string list" where
  "str_split_on sep s =
     (if sep = [] \<or> s = [] then [s]
      else if take (length sep) s = sep then [] # str_split_on sep (drop (length sep) s)
      else (case str_split_on sep (tl s) of
              [] \<Rightarrow> [[hd s]]
            | w # ws \<Rightarrow> (hd s # w) # ws))"
  by pat_completeness auto
termination
  by (relation "measure (\<lambda>(sep, s). length s)") auto

declare str_split_on.simps [simp del]

text \<open>\<^verbatim>\<open>sep.join(xs)\<close>.\<close>

fun str_join :: "string \<Rightarrow> string list \<Rightarrow> string" where
  "str_join sep [] = []"
| "str_join sep [x] = x"
| "str_join sep (x # y # ys) = x @ sep @ str_join sep (y # ys)"

text \<open>\<^verbatim>\<open>s.partition("-")\<close>: the text before the first separator, the separator if there
  is one, and the text after it.\<close>

definition str_partition :: "char \<Rightarrow> string \<Rightarrow> string \<times> string \<times> string" where
  "str_partition sep s =
     (case dropWhile (\<lambda>c. c \<noteq> sep) s of
        [] \<Rightarrow> (s, [], [])
      | _ # rest \<Rightarrow> (takeWhile (\<lambda>c. c \<noteq> sep) s, [sep], rest))"

text \<open>
  \<^verbatim>\<open>int(s)\<close> on a string: surrounding whitespace is dropped, one sign is allowed, and
  the rest is a non-empty run of decimal digits in which single underscores may separate
  digits. Anything else raises \<^verbatim>\<open>ValueError\<close>. (The interpreter's configurable limit on
  the number of digits is not part of the model.)
\<close>

definition digit_val :: "char \<Rightarrow> nat" where
  "digit_val c = of_char c - 48"

definition nat_of_digits :: "string \<Rightarrow> nat" where
  "nat_of_digits ds = foldl (\<lambda>n c. 10 * n + digit_val c) 0 ds"

fun int_literal :: "string \<Rightarrow> bool" where
  "int_literal [] = False"
| "int_literal [c] = is_digit c"
| "int_literal (c # d # cs) =
     (is_digit c \<and>
      (if d = CHR ''_'' then int_literal cs else int_literal (d # cs)))"

definition py_int :: "string \<Rightarrow> error + int" where
  "py_int s =
     (let t = strip s;
          neg = (t \<noteq> [] \<and> hd t = CHR ''-'');
          body = (if t \<noteq> [] \<and> (hd t = CHR ''-'' \<or> hd t = CHR ''+'') then tl t else t)
      in if int_literal body
         then Inr ((if neg then -1 else 1) * int (nat_of_digits (filter is_digit body)))
         else Inl ValueError)"

text \<open>\<^verbatim>\<open>str(n)\<close> for a natural number.\<close>

definition digit_char :: "nat \<Rightarrow> char" where
  "digit_char d = ''0123456789'' ! d"

fun str_nat :: "nat \<Rightarrow> string" where
  "str_nat n = (if n < 10 then [digit_char n] else str_nat (n div 10) @ [digit_char (n mod 10)])"

declare str_nat.simps [simp del]

section \<open>Spans and span sets\<close>

text \<open>
  \<^verbatim>\<open>Span\<close> has the two fields \<^verbatim>\<open>start\<close> and \<^verbatim>\<open>end\<close>, each an integer or \<^verbatim>\<open>None\<close>.
\<close>

datatype Span = Span (start: "int option") (stop: "int option")

text \<open>
  \<^verbatim>\<open>Span.parse\<close>. The \<^verbatim>\<open>assert s\<close> fails on the empty string. Without a separator
  \<open>start\<close> is the whole non-empty text, so \<^verbatim>\<open>start + 1\<close> is taken of an integer.
\<close>

definition Span_parse :: "string \<Rightarrow> error + Span" where
  "Span_parse s =
     (if s = [] then Inl AssertionError
      else
        (case str_partition (CHR ''-'') s of (start_text, sep, end_text) \<Rightarrow>
          (case (if start_text \<noteq> [] then map_sum id Some (py_int start_text) else Inr None) of
             Inl e \<Rightarrow> Inl e
           | Inr start_v \<Rightarrow>
               (case (if end_text \<noteq> [] then map_sum id (\<lambda>i. Some (i + 1)) (py_int end_text)
                      else Inr None) of
                  Inl e \<Rightarrow> Inl e
                | Inr end_v \<Rightarrow>
                    (if end_v = None \<and> sep = [] then
                       (case start_v of
                          None \<Rightarrow> Inl TypeError
                        | Some a \<Rightarrow> Inr (Span (Some a) (Some (a + 1))))
                     else Inr (Span start_v end_v))))))"

text \<open>\<^verbatim>\<open>Span.__contains__\<close>.\<close>

fun Span_contains :: "Span \<Rightarrow> int \<Rightarrow> bool" where
  "Span_contains (Span None None) i = True"
| "Span_contains (Span None (Some e)) i = (i < e)"
| "Span_contains (Span (Some s) None) i = (s \<le> i)"
| "Span_contains (Span (Some s) (Some e)) i = (s \<le> i \<and> i < e)"

text \<open>
  \<^verbatim>\<open>Spans\<close> holds a list of spans. \<^verbatim>\<open>Spans.all()\<close> is the single unbounded span,
  \<^verbatim>\<open>Spans.parse\<close> parses the non-empty pieces between commas, and membership looks for
  the first span that contains the index.
\<close>

definition Spans_all :: "Span list" where
  "Spans_all = [Span None None]"

fun parse_each :: "string list \<Rightarrow> error + Span list" where
  "parse_each [] = Inr []"
| "parse_each (s # ss) =
     (case Span_parse s of
        Inl e \<Rightarrow> Inl e
      | Inr sp \<Rightarrow> (case parse_each ss of Inl e \<Rightarrow> Inl e | Inr sps \<Rightarrow> Inr (sp # sps)))"

definition Spans_parse :: "string \<Rightarrow> error + Span list" where
  "Spans_parse v = parse_each (filter (\<lambda>s. s \<noteq> []) (str_split (CHR '','') v))"

fun Spans_contains :: "Span list \<Rightarrow> int \<Rightarrow> bool" where
  "Spans_contains [] i = False"
| "Spans_contains (sp # sps) i = (if Span_contains sp i then True else Spans_contains sps i)"

text \<open>
  \<^verbatim>\<open>Spans.filter\<close> is a generator: it walks the iterable with \<^verbatim>\<open>enumerate\<close> and yields
  the \<^emph>\<open>value\<close> at every index the span set contains. The counter of \<^verbatim>\<open>enumerate\<close> is
  the second argument of the loop.
\<close>

fun filter_from :: "Span list \<Rightarrow> nat \<Rightarrow> 'a list \<Rightarrow> 'a list" where
  "filter_from spans i [] = []"
| "filter_from spans i (v # vs) =
     (if Spans_contains spans (int i) then v # filter_from spans (Suc i) vs
      else filter_from spans (Suc i) vs)"

definition Spans_filter :: "Span list \<Rightarrow> 'a list \<Rightarrow> 'a list" where
  "Spans_filter spans iterable = filter_from spans 0 iterable"

text \<open>
  Python values, to compare what \<^verbatim>\<open>filter\<close> yields with tuples. The second definition
  follows the specification's words, not the source: it pairs every index the span set
  contains with the element there.
\<close>

datatype pyval = PyInt int | PyStr string | PyTuple "pyval list"

definition filter_pairs_spec :: "Span list \<Rightarrow> pyval list \<Rightarrow> pyval list" where
  "filter_pairs_spec spans xs =
     map (\<lambda>i. PyTuple [PyInt (int i), xs ! i])
       (filter (\<lambda>i. Spans_contains spans (int i)) [0..<length xs])"

section \<open>Quoting\<close>

text \<open>
  \<^verbatim>\<open>quote(text)\<close>. The argument is a string or \<^verbatim>\<open>None\<close> (the value the CSV reader
  gives to a field a short line lacks); \<^verbatim>\<open>not text\<close> holds of \<^verbatim>\<open>None\<close> and of the empty
  string. The eight \<^verbatim>\<open>replace\<close> calls run one after the other, in the order of the source.
\<close>

definition quote :: "string option \<Rightarrow> string" where
  "quote text =
     (case text of
        None \<Rightarrow> []
      | Some t \<Rightarrow>
          if t = [] then []
          else
            replace [bslash, bslash] [bslash, bslash, bslash, bslash]
             (replace ''}'' [bslash, CHR ''}'']
              (replace ''{'' [bslash, CHR ''{'']
               (replace ''_'' [bslash, CHR ''_'']
                (replace ''$'' [bslash, CHR ''$'']
                 (replace ''&'' [bslash, CHR ''&'']
                  (replace ''#'' [bslash, CHR ''#'']
                   (replace ''%'' [bslash, CHR ''%'']
                    (strip t)))))))))"

text \<open>
  The specification's reading of \<^verbatim>\<open>quote\<close>, to compare with the source: each of the
  seven special characters gets a backslash in front, every other character stays.
  The alphanumeric characters are the ASCII digits and letters.
\<close>

definition specials :: string where
  "specials = ''%#&$_{}''"

definition escape_char :: "char \<Rightarrow> string" where
  "escape_char c = (if c \<in> set specials then [bslash, c] else [c])"

text \<open>
  The specification's doubling, to compare with the last \<^verbatim>\<open>replace\<close> call of the source:
  reading from the left, every two adjacent backslashes become four, and a backslash
  that is left alone stays.
\<close>

fun double_pairs :: "string \<Rightarrow> string" where
  "double_pairs (a # b # cs) =
     (if a = bslash \<and> b = bslash then [bslash, bslash, bslash, bslash] @ double_pairs cs
      else a # double_pairs (b # cs))"
| "double_pairs [a] = [a]"
| "double_pairs [] = []"

definition is_alnum :: "char \<Rightarrow> bool" where
  "is_alnum c =
     (let n = of_char c :: nat
      in (48 \<le> n \<and> n \<le> 57) \<or> (65 \<le> n \<and> n \<le> 90) \<or> (97 \<le> n \<and> n \<le> 122))"

section \<open>Regular expressions\<close>

text \<open>
  The two patterns of the numeric modifiers are regular expressions in the strict sense,
  so \<^verbatim>\<open>re.match\<close> on an anchored pattern finds a match exactly when the text is in the
  pattern's language. Membership is decided with derivatives.
\<close>

datatype rexp =
    Zero
  | One
  | Chars string
  | Alt rexp rexp
  | Seq rexp rexp
  | Star rexp

abbreviation Opt :: "rexp \<Rightarrow> rexp" where "Opt r \<equiv> Alt r One"
abbreviation Plus :: "rexp \<Rightarrow> rexp" where "Plus r \<equiv> Seq r (Star r)"

fun nullable :: "rexp \<Rightarrow> bool" where
  "nullable Zero = False"
| "nullable One = True"
| "nullable (Chars cs) = False"
| "nullable (Alt r s) = (nullable r \<or> nullable s)"
| "nullable (Seq r s) = (nullable r \<and> nullable s)"
| "nullable (Star r) = True"

fun deriv :: "char \<Rightarrow> rexp \<Rightarrow> rexp" where
  "deriv c Zero = Zero"
| "deriv c One = Zero"
| "deriv c (Chars cs) = (if c \<in> set cs then One else Zero)"
| "deriv c (Alt r s) = Alt (deriv c r) (deriv c s)"
| "deriv c (Seq r s) =
     (if nullable r then Alt (Seq (deriv c r) s) (deriv c s) else Seq (deriv c r) s)"
| "deriv c (Star r) = Seq (deriv c r) (Star r)"

definition in_lang :: "rexp \<Rightarrow> string \<Rightarrow> bool" where
  "in_lang r s = nullable (foldl (\<lambda>q c. deriv c q) r s)"

text \<open>
  \<^verbatim>\<open>re.match("^...$", s)\<close>: without the multi-line flag \<^verbatim>\<open>$\<close> matches at the end of the
  text and also just before a newline that ends the text.
\<close>

definition re_match :: "rexp \<Rightarrow> string \<Rightarrow> bool" where
  "re_match r s = (in_lang r s \<or> (s \<noteq> [] \<and> last s = newline \<and> in_lang r (butlast s)))"

text \<open>\<^verbatim>\<open>^-?([0-9]+[,.]?)+$\<close> of \<^verbatim>\<open>RoundNumbers\<close> and \<^verbatim>\<open>^-?[0-9,.]+$\<close> of \<^verbatim>\<open>Percent\<close>.\<close>

definition round_pattern :: rexp where
  "round_pattern =
     Seq (Opt (Chars ''-'')) (Plus (Seq (Plus (Chars ''0123456789'')) (Opt (Chars '',.''))))"

definition percent_pattern :: rexp where
  "percent_pattern = Seq (Opt (Chars ''-'')) (Plus (Chars ''0123456789,.''))"

section \<open>Decimal arithmetic\<close>

text \<open>
  The numeric modifiers compute with \<^verbatim>\<open>decimal.Decimal\<close> in the default context:
  precision 28, exponents between \<open>-999999\<close> and \<open>999999\<close>, rounding half to even, and the
  signals \<^verbatim>\<open>InvalidOperation\<close>, \<^verbatim>\<open>DivisionByZero\<close> and \<^verbatim>\<open>Overflow\<close> raised as exceptions.
  A finite decimal is a sign, a coefficient and an exponent; its value is
  \<open>\<plusminus> coeff * 10 ^ expo\<close>. The operations below follow the library's arithmetic on
  these triples: the conversion from text, division, multiplication, \<^verbatim>\<open>quantize\<close>, the
  context's final rounding and \<^verbatim>\<open>str\<close>.
\<close>

datatype decimal = Decimal (dsign: bool) (coeff: nat) (expo: int)

datatype rounding = ROUND_DOWN | ROUND_HALF_EVEN

definition prec :: int where "prec = 28"
definition Emax :: int where "Emax = 999999"
definition Emin :: int where "Emin = - 999999"
definition Etiny :: int where "Etiny = Emin - prec + 1"
definition Etop :: int where "Etop = Emax - prec + 1"

definition ndigits :: "nat \<Rightarrow> nat" where
  "ndigits c = length (str_nat c)"

text \<open>
  The conversion \<^verbatim>\<open>Decimal(text)\<close>, exact. Whitespace around the text and underscores are
  dropped. The texts that reach it have passed one of the two patterns and lost their
  commas, so they hold a sign, digits and points (and perhaps a final newline); the
  forms with an exponent, \<^verbatim>\<open>Infinity\<close> and \<^verbatim>\<open>NaN\<close> hold letters and are left out.
\<close>

definition D :: "string \<Rightarrow> error + decimal" where
  "D s =
     (let t = filter (\<lambda>c. c \<noteq> CHR ''_'') (strip s);
          neg = (t \<noteq> [] \<and> hd t = CHR ''-'');
          body = (if t \<noteq> [] \<and> (hd t = CHR ''-'' \<or> hd t = CHR ''+'') then tl t else t);
          intpart = takeWhile is_digit body;
          rest = dropWhile is_digit body
      in if rest = [] then
           (if intpart = [] then Inl InvalidOperation
            else Inr (Decimal neg (nat_of_digits intpart) 0))
         else if hd rest = CHR ''.'' \<and> list_all is_digit (tl rest)
                 \<and> (intpart \<noteq> [] \<or> tl rest \<noteq> []) then
           Inr (Decimal neg (nat_of_digits (intpart @ tl rest)) (- int (length (tl rest))))
         else Inl InvalidOperation)"

text \<open>
  Rounding a coefficient by dropping its last \<open>j\<close> digits: toward zero, or to the nearest
  with ties to the even neighbour.
\<close>

definition round_coeff :: "rounding \<Rightarrow> nat \<Rightarrow> nat \<Rightarrow> nat" where
  "round_coeff mode c j =
     (let q = c div 10 ^ j; r = c mod 10 ^ j
      in case mode of
           ROUND_DOWN \<Rightarrow> q
         | ROUND_HALF_EVEN \<Rightarrow> if 2 * r > 10 ^ j \<or> (2 * r = 10 ^ j \<and> odd q) then q + 1 else q)"

text \<open>
  \<^verbatim>\<open>_rescale\<close>: the decimal at a given exponent. A coefficient that lies wholly below the
  new last place is replaced by a single 1 one place below it before it is rounded.
\<close>

definition rescale :: "decimal \<Rightarrow> int \<Rightarrow> rounding \<Rightarrow> decimal" where
  "rescale d ex mode =
     (case d of Decimal s c e \<Rightarrow>
        if c = 0 then Decimal s 0 ex
        else if e \<ge> ex then Decimal s (c * 10 ^ nat (e - ex)) ex
        else if int (ndigits c) + e - ex < 0 then Decimal s (round_coeff mode 1 1) ex
        else Decimal s (round_coeff mode c (nat (ex - e))) ex)"

text \<open>
  \<^verbatim>\<open>_fix\<close>: the context's final rounding. A zero has its exponent clamped; a coefficient
  of more than 28 digits is rounded half to even; a result above the largest exponent
  raises \<^verbatim>\<open>Overflow\<close>.
\<close>

definition fix_ctx :: "decimal \<Rightarrow> error + decimal" where
  "fix_ctx d =
     (case d of Decimal s c e \<Rightarrow>
        if c = 0 then Inr (Decimal s 0 (min (max e Etiny) Emax))
        else
          let exp_min0 = int (ndigits c) + e - prec in
          if exp_min0 > Etop then Inl Overflow
          else
            let exp_min = (if exp_min0 < Etiny then Etiny else exp_min0) in
            if e < exp_min then
              (let c0 = (if int (ndigits c) + e - exp_min < 0
                         then round_coeff ROUND_HALF_EVEN 1 1
                         else round_coeff ROUND_HALF_EVEN c (nat (exp_min - e)));
                   c1 = (if int (ndigits c0) > prec then c0 div 10 else c0);
                   exp_min1 = (if int (ndigits c0) > prec then exp_min + 1 else exp_min)
               in if exp_min1 > Etop then Inl Overflow else Inr (Decimal s c1 exp_min1))
            else Inr d)"

text \<open>
  Division. The quotient is computed to one digit more than the precision; an exact
  quotient then loses trailing zeros as long as its exponent is below the ideal one,
  the difference of the operands' exponents.
\<close>

function strip_zeros :: "nat \<Rightarrow> int \<Rightarrow> int \<Rightarrow> nat \<times> int" where
  "strip_zeros c e ideal =
     (if e < ideal \<and> c mod 10 = 0 then strip_zeros (c div 10) (e + 1) ideal else (c, e))"
  by pat_completeness auto
termination
  by (relation "measure (\<lambda>(c, e, ideal). nat (ideal - e))") auto

declare strip_zeros.simps [simp del]

definition truediv :: "decimal \<Rightarrow> decimal \<Rightarrow> error + decimal" where
  "truediv a b =
     (case a of Decimal s1 c1 e1 \<Rightarrow> case b of Decimal s2 c2 e2 \<Rightarrow>
        if c2 = 0 then (if c1 = 0 then Inl InvalidOperation else Inl DivisionByZero)
        else if c1 = 0 then fix_ctx (Decimal (s1 \<noteq> s2) 0 (e1 - e2))
        else
          let shift = int (ndigits c2) - int (ndigits c1) + prec + 1;
              ex = e1 - e2 - shift;
              num = (if shift \<ge> 0 then c1 * 10 ^ nat shift else c1);
              den = (if shift \<ge> 0 then c2 else c2 * 10 ^ nat (- shift));
              q = num div den;
              r = num mod den
          in if r \<noteq> 0 then fix_ctx (Decimal (s1 \<noteq> s2) (if q mod 5 = 0 then q + 1 else q) ex)
             else (case strip_zeros q ex (e1 - e2) of
                     (q', ex') \<Rightarrow> fix_ctx (Decimal (s1 \<noteq> s2) q' ex')))"

text \<open>Multiplication: the product of the coefficients at the sum of the exponents.\<close>

definition mul :: "decimal \<Rightarrow> decimal \<Rightarrow> error + decimal" where
  "mul a b =
     (case a of Decimal s1 c1 e1 \<Rightarrow> case b of Decimal s2 c2 e2 \<Rightarrow>
        fix_ctx (Decimal (s1 \<noteq> s2) (c1 * c2) (e1 + e2)))"

text \<open>
  \<^verbatim>\<open>quantize\<close>: the decimal rounded to a given exponent; \<^verbatim>\<open>InvalidOperation\<close> when the
  exponent is out of bounds or the result would need more digits than the precision.
\<close>

definition adjusted :: "decimal \<Rightarrow> int" where
  "adjusted d = expo d + int (ndigits (coeff d)) - 1"

definition quantize :: "decimal \<Rightarrow> int \<Rightarrow> rounding \<Rightarrow> error + decimal" where
  "quantize d ex mode =
     (if \<not> (Etiny \<le> ex \<and> ex \<le> Emax) then Inl InvalidOperation
      else if coeff d = 0 then fix_ctx (Decimal (dsign d) 0 ex)
      else if adjusted d > Emax then Inl InvalidOperation
      else if adjusted d - ex + 1 > prec then Inl InvalidOperation
      else
        let ans = rescale d ex mode in
        if adjusted ans > Emax then Inl InvalidOperation
        else if int (ndigits (coeff ans)) > prec then Inl InvalidOperation
        else fix_ctx ans)"

text \<open>
  \<^verbatim>\<open>str(d)\<close>: plain notation while the exponent is at most 0 and more than \<open>-6\<close> digits
  stand left of the point, scientific notation otherwise.
\<close>

definition fmt_plus_d :: "int \<Rightarrow> string" where
  "fmt_plus_d i = (if i < 0 then CHR ''-'' # str_nat (nat (- i)) else CHR ''+'' # str_nat (nat i))"

definition str_decimal :: "decimal \<Rightarrow> string" where
  "str_decimal d =
     (case d of Decimal s c e \<Rightarrow>
        let ds = str_nat c;
            leftdigits = e + int (length ds);
            dotplace = (if e \<le> 0 \<and> leftdigits > - 6 then leftdigits else 1);
            intpart = (if dotplace \<le> 0 then ''0''
                       else if dotplace \<ge> int (length ds)
                       then ds @ replicate (nat (dotplace - int (length ds))) (CHR ''0'')
                       else take (nat dotplace) ds);
            fracpart = (if dotplace \<le> 0 then CHR ''.'' # replicate (nat (- dotplace)) (CHR ''0'') @ ds
                        else if dotplace \<ge> int (length ds) then []
                        else CHR ''.'' # drop (nat dotplace) ds);
            ex = (if leftdigits = dotplace then [] else CHR ''E'' # fmt_plus_d (leftdigits - dotplace))
        in (if s then ''-'' else []) @ intpart @ fracpart @ ex)"

text \<open>
  The specification's rounding to an integer, to compare with the library's: the integer
  nearest to the quotient \<open>n / m\<close>, and the even one when two are equally near.
\<close>

definition nearest_even :: "nat \<Rightarrow> nat \<Rightarrow> nat" where
  "nearest_even n m =
     (let q = n div m; r = n mod m
      in if 2 * r < m then q else if m < 2 * r then q + 1 else if even q then q else q + 1)"

section \<open>Modifiers\<close>

text \<open>
  The span set of a modifier is a \<^verbatim>\<open>RowSpans\<close> or a \<^verbatim>\<open>ColSpans\<close>: it is asked for a cell
  \<open>(row, col)\<close>, where the row-level hook passes \<^verbatim>\<open>None\<close> as the column.
\<close>

datatype spans = RowSpans "Span list" | ColSpans "Span list"

type_synonym cell = "int option \<times> int option"

fun cell_in :: "cell \<Rightarrow> spans \<Rightarrow> bool" where
  "cell_in (row, col) (RowSpans sps) =
     (case row of None \<Rightarrow> False | Some r \<Rightarrow> Spans_contains sps r)"
| "cell_in (row, col) (ColSpans sps) =
     (case col of None \<Rightarrow> False | Some c \<Rightarrow> Spans_contains sps c)"

text \<open>
  One constructor for each modifier class, with the span set first and then the fields
  of the class (\<open>ListItems\<close> is the class \<^verbatim>\<open>List\<close>). An argument text is a string or \<^verbatim>\<open>None\<close>. \<^verbatim>\<open>Bold\<close> and \<^verbatim>\<open>Italic\<close>
  inherit the fields \<^verbatim>\<open>directive\<close> and \<^verbatim>\<open>wrap_value\<close> of \<^verbatim>\<open>Wrapper\<close>;
  \<^verbatim>\<open>RowBorderWrapper\<close> has \<^verbatim>\<open>border_top\<close>, \<^verbatim>\<open>border_bottom\<close> and \<^verbatim>\<open>border_command\<close>.
\<close>

datatype wrapper =
    Wrapper spans "string option" bool
  | Bold spans "string option" bool
  | Italic spans "string option" bool
  | BackgroundColor spans "string option"
  | Dot spans
  | CheckmarkIfValue spans "string option"
  | CrossmarkIfValue spans "string option"
  | ListItems spans "string option"
  | TextColor spans "string option"
  | RoundNumbers spans int "rounding option"
  | Percent spans int
  | RowBorderWrapper spans bool bool string
  | RowWrapper spans

fun spans_of :: "wrapper \<Rightarrow> spans" where
  "spans_of (Wrapper sp d w) = sp"
| "spans_of (Bold sp d w) = sp"
| "spans_of (Italic sp d w) = sp"
| "spans_of (BackgroundColor sp c) = sp"
| "spans_of (Dot sp) = sp"
| "spans_of (CheckmarkIfValue sp v) = sp"
| "spans_of (CrossmarkIfValue sp v) = sp"
| "spans_of (ListItems sp v) = sp"
| "spans_of (TextColor sp c) = sp"
| "spans_of (RoundNumbers sp n r) = sp"
| "spans_of (Percent sp n) = sp"
| "spans_of (RowBorderWrapper sp t b c) = sp"
| "spans_of (RowWrapper sp) = sp"

text \<open>The class attribute \<^verbatim>\<open>priority\<close>: 100 unless the class sets its own.\<close>

fun priority :: "wrapper \<Rightarrow> int" where
  "priority (BackgroundColor sp c) = 10"
| "priority (TextColor sp c) = 100"
| "priority (RoundNumbers sp n r) = 200"
| "priority (Percent sp n) = 200"
| "priority (RowBorderWrapper sp t b c) = 0"
| "priority (RowWrapper sp) = 1"
| "priority w = 100"

text \<open>A value inside an f-string: \<^verbatim>\<open>None\<close> is written \<^verbatim>\<open>None\<close>.\<close>

fun fmt :: "string option \<Rightarrow> string" where
  "fmt None = ''None''"
| "fmt (Some s) = s"

text \<open>\<^verbatim>\<open>Wrapper.apply\<close>, which \<^verbatim>\<open>Bold\<close> and \<^verbatim>\<open>Italic\<close> inherit.\<close>

definition Wrapper_apply :: "string option \<Rightarrow> bool \<Rightarrow> string \<Rightarrow> string" where
  "Wrapper_apply directive wrap_value v =
     (let v1 = strip v in
      if v1 = [] then []
      else if wrap_value then bslash # fmt directive @ ''{'' @ v1 @ ''}''
      else bslash # fmt directive @ (if startswith v1 [bslash] then [] else '' '') @ v1)"

text \<open>\<^verbatim>\<open>List.apply\<close>.\<close>

definition List_apply :: "string \<Rightarrow> string" where
  "List_apply v =
     (if strip v = [] then []
      else str_join [newline]
             ([bslash # ''begin{tabitemize}'']
              @ map (\<lambda>line. bslash # ''item '' @ line)
                  (str_split_on [newline, CHR ''-'', CHR '' ''] (strip_chars ''- '' v))
              @ [bslash # ''end{tabitemize}'']))"

text \<open>
  \<^verbatim>\<open>RoundNumbers.apply\<close>. A text in parentheses first becomes the text after a minus
  sign; then the pattern decides between the numeric branch and the brace group. The
  negative branch of the numeric one divides by a power of ten and quantizes to an
  integer with the context's rounding; the other branch quantizes to \<open>decimals\<close> places
  with the modifier's rounding (\<^verbatim>\<open>None\<close> is the context's).
\<close>

definition RoundNumbers_apply :: "int \<Rightarrow> rounding option \<Rightarrow> string \<Rightarrow> error + string" where
  "RoundNumbers_apply decimals rnd v =
     (let v1 = (if startswith v ''('' \<and> endswith v '')'' then CHR ''-'' # butlast (tl v) else v) in
      if re_match round_pattern v1 then
        (case D (replace '','' [] v1) of
           Inl e \<Rightarrow> Inl e
         | Inr d \<Rightarrow>
             if decimals < 0 then
               (case truediv d (Decimal False (10 ^ nat (- decimals)) 0) of
                  Inl e \<Rightarrow> Inl e
                | Inr d1 \<Rightarrow> map_sum id str_decimal (quantize d1 0 ROUND_HALF_EVEN))
             else
               map_sum id str_decimal
                 (quantize d (- int (nat decimals))
                    (case rnd of None \<Rightarrow> ROUND_HALF_EVEN | Some m \<Rightarrow> m)))
      else
        Inr (''{'' @ (if strip v1 = ''...'' then bslash # ''dots'' else v1) @ ''}''))"

text \<open>\<^verbatim>\<open>Percent.apply\<close>.\<close>

definition Percent_apply :: "int \<Rightarrow> string \<Rightarrow> error + string" where
  "Percent_apply decimals v =
     (if re_match percent_pattern v then
        (case D (replace '','' [] v) of
           Inl e \<Rightarrow> Inl e
         | Inr d \<Rightarrow>
             (case mul d (Decimal False 100 0) of
                Inl e \<Rightarrow> Inl e
              | Inr d1 \<Rightarrow>
                  map_sum id (\<lambda>q. bslash # ''pct{'' @ str_decimal q @ ''}'')
                    (quantize d1 (- int (nat decimals)) ROUND_HALF_EVEN)))
      else Inr v)"

text \<open>The method \<^verbatim>\<open>apply\<close> of each class.\<close>

fun apply_cell :: "wrapper \<Rightarrow> string \<Rightarrow> error + string" where
  "apply_cell (Wrapper sp d w) v = Inr (Wrapper_apply d w v)"
| "apply_cell (Bold sp d w) v = Inr (Wrapper_apply d w v)"
| "apply_cell (Italic sp d w) v = Inr (Wrapper_apply d w v)"
| "apply_cell (BackgroundColor sp c) v = Inr (bslash # ''cellcolor{'' @ fmt c @ ''}'' @ v)"
| "apply_cell (Dot sp) v = Inr (if strip v \<noteq> [] then bslash # ''textbullet'' else v)"
| "apply_cell (CheckmarkIfValue sp a) v = Inr (if Some (strip v) = a then bslash # ''cmark'' else v)"
| "apply_cell (CrossmarkIfValue sp a) v = Inr (if Some (strip v) = a then bslash # ''xmark'' else v)"
| "apply_cell (ListItems sp a) v = Inr (List_apply v)"
| "apply_cell (TextColor sp c) v = Inr (bslash # ''color{'' @ fmt c @ ''}{'' @ v @ ''}'')"
| "apply_cell (RoundNumbers sp n r) v = RoundNumbers_apply n r v"
| "apply_cell (Percent sp n) v = Percent_apply n v"
| "apply_cell (RowBorderWrapper sp t b c) v = Inr v"
| "apply_cell (RowWrapper sp) v = Inr v"

text \<open>
  The method \<^verbatim>\<open>apply_row\<close>: the identity of \<^verbatim>\<open>WrapperBase\<close>, but for the two row
  modifiers. \<^verbatim>\<open>RowWrapper.apply_row\<close> puts a newline, two backslashes and a newline
  after a non-empty text, and gives two backslashes and a newline for the empty one.
\<close>

fun apply_row :: "wrapper \<Rightarrow> string \<Rightarrow> string" where
  "apply_row (RowBorderWrapper sp border_top border_bottom border_command) v =
     (if border_top then bslash # border_command @ [newline] @ v else v)"
| "apply_row (RowWrapper sp) v =
     (if v \<noteq> [] then v @ [newline, bslash, bslash, newline] else [bslash, bslash, newline])"
| "apply_row w v = v"

text \<open>\<^verbatim>\<open>WrapperBase.wrap\<close> and \<^verbatim>\<open>WrapperBase.wrap_row\<close>.\<close>

definition wrap :: "wrapper \<Rightarrow> cell \<Rightarrow> string \<Rightarrow> error + string" where
  "wrap w c v = (if cell_in c (spans_of w) then apply_cell w v else Inr v)"

definition wrap_row :: "wrapper \<Rightarrow> int \<Rightarrow> string \<Rightarrow> string" where
  "wrap_row w row v = (if cell_in (Some row, None) (spans_of w) then apply_row w v else v)"

section \<open>The registry and the modifier specifications\<close>

text \<open>The class method \<^verbatim>\<open>parse\<close> of each class in \<^verbatim>\<open>MODIFIERS\<close>.\<close>

definition Wrapper_parse :: "spans \<Rightarrow> string option \<Rightarrow> error + wrapper" where
  "Wrapper_parse sp args = Inr (Wrapper sp args True)"

definition Bold_parse :: "spans \<Rightarrow> string option \<Rightarrow> error + wrapper" where
  "Bold_parse sp args =
     (if args \<noteq> None then Inl AssertionError else Inr (Bold sp (Some ''bfseries'') False))"

definition Italic_parse :: "spans \<Rightarrow> string option \<Rightarrow> error + wrapper" where
  "Italic_parse sp args =
     (if args \<noteq> None then Inl AssertionError else Inr (Italic sp (Some ''itshape'') False))"

definition BackgroundColor_parse :: "spans \<Rightarrow> string option \<Rightarrow> error + wrapper" where
  "BackgroundColor_parse sp args = Inr (BackgroundColor sp args)"

definition Dot_parse :: "spans \<Rightarrow> string option \<Rightarrow> error + wrapper" where
  "Dot_parse sp args = (if args \<noteq> None then Inl AssertionError else Inr (Dot sp))"

definition CheckmarkIfValue_parse :: "spans \<Rightarrow> string option \<Rightarrow> error + wrapper" where
  "CheckmarkIfValue_parse sp args = Inr (CheckmarkIfValue sp args)"

definition CrossmarkIfValue_parse :: "spans \<Rightarrow> string option \<Rightarrow> error + wrapper" where
  "CrossmarkIfValue_parse sp args = Inr (CrossmarkIfValue sp args)"

definition List_parse :: "spans \<Rightarrow> string option \<Rightarrow> error + wrapper" where
  "List_parse sp args = Inr (ListItems sp args)"

definition TextColor_parse :: "spans \<Rightarrow> string option \<Rightarrow> error + wrapper" where
  "TextColor_parse sp args = Inr (TextColor sp args)"

definition RoundNumbers_parse :: "spans \<Rightarrow> string option \<Rightarrow> error + wrapper" where
  "RoundNumbers_parse sp args =
     (case args of
        None \<Rightarrow> Inl AttributeError
      | Some a \<Rightarrow>
          (let parts = str_split (CHR '','') a;
               rnd = (if length parts > 1 \<and> parts ! 1 = ''down'' then Some ROUND_DOWN else None)
           in case py_int (hd parts) of
                Inl e \<Rightarrow> Inl e
              | Inr n \<Rightarrow> Inr (RoundNumbers sp n rnd)))"

definition Percent_parse :: "spans \<Rightarrow> string option \<Rightarrow> error + wrapper" where
  "Percent_parse sp args =
     (case args of
        None \<Rightarrow> Inl TypeError
      | Some a \<Rightarrow> (case py_int a of Inl e \<Rightarrow> Inl e | Inr n \<Rightarrow> Inr (Percent sp n)))"

definition MODIFIERS :: "(string \<times> (spans \<Rightarrow> string option \<Rightarrow> error + wrapper)) list" where
  "MODIFIERS =
     [(''bold'', Bold_parse),
      (''italic'', Italic_parse),
      (''bg'', BackgroundColor_parse),
      (''fg'', TextColor_parse),
      (''round'', RoundNumbers_parse),
      (''percent'', Percent_parse),
      (''dot'', Dot_parse),
      (''list'', List_parse),
      (''cmark-if'', CheckmarkIfValue_parse),
      (''xmark-if'', CrossmarkIfValue_parse),
      (''wrap'', Wrapper_parse)]"

text \<open>
  \<^verbatim>\<open>parse_modifier(m, spans_cls)\<close>: the text is split at its first two colons; the span
  text is parsed, then the key is looked up, then the class parses the argument.
\<close>

definition parse_modifier :: "string \<Rightarrow> (Span list \<Rightarrow> spans) \<Rightarrow> error + wrapper" where
  "parse_modifier m spans_cls =
     (case str_split_max 2 (CHR '':'') m of
        [sp_text, key, args] \<Rightarrow>
          (case Spans_parse sp_text of
             Inl e \<Rightarrow> Inl e
           | Inr sps \<Rightarrow>
               (case map_of MODIFIERS key of
                  None \<Rightarrow> Inl KeyError
                | Some parse \<Rightarrow> parse (spans_cls sps) (Some args)))
      | [sp_text, key] \<Rightarrow>
          (case Spans_parse sp_text of
             Inl e \<Rightarrow> Inl e
           | Inr sps \<Rightarrow>
               (case map_of MODIFIERS key of
                  None \<Rightarrow> Inl KeyError
                | Some parse \<Rightarrow> parse (spans_cls sps) None))
      | _ \<Rightarrow> Inl ValueError)"

section \<open>The renderer\<close>

text \<open>
  A row template takes the cell texts and the flag \<^verbatim>\<open>has_value\<close>. The default one,
  \<^verbatim>\<open>simple_row\<close>, joins the cells when the flag is set.
\<close>

type_synonym row_template = "string list \<Rightarrow> bool \<Rightarrow> error + string"

definition simple_row :: row_template where
  "simple_row values has_value = Inr (if has_value then str_join '' & '' values else [])"

text \<open>
  A row of the reader is a dictionary from column names to texts or \<^verbatim>\<open>None\<close>.
  \<^verbatim>\<open>[data[k] for k in cols]\<close> raises \<^verbatim>\<open>KeyError\<close> on a missing key.
\<close>

type_synonym row_dict = "string \<rightharpoonup> string option"

fun lookup_all :: "row_dict \<Rightarrow> string list \<Rightarrow> error + string option list" where
  "lookup_all d [] = Inr []"
| "lookup_all d (k # ks) =
     (case d k of
        None \<Rightarrow> Inl KeyError
      | Some v \<Rightarrow> (case lookup_all d ks of Inl e \<Rightarrow> Inl e | Inr vs \<Rightarrow> Inr (v # vs)))"

text \<open>Sequencing of two steps that can raise: the second runs on the result of the first.\<close>

definition bind_err :: "error + 'a \<Rightarrow> ('a \<Rightarrow> error + 'b) \<Rightarrow> error + 'b" where
  "bind_err r f = (case r of Inl e \<Rightarrow> Inl e | Inr v \<Rightarrow> f v)"

text \<open>The inner loop of \<^verbatim>\<open>print_row\<close>: every modifier of the pipeline, in its order.\<close>

fun wrap_all :: "wrapper list \<Rightarrow> cell \<Rightarrow> string \<Rightarrow> error + string" where
  "wrap_all [] c v = Inr v"
| "wrap_all (w # ws) c v =
     (case wrap w c v of Inl e \<Rightarrow> Inl e | Inr v' \<Rightarrow> wrap_all ws c v')"

text \<open>
  The outer loop of \<^verbatim>\<open>print_row\<close> over the cells, with the column counter of
  \<^verbatim>\<open>enumerate\<close> and the two variables \<^verbatim>\<open>values\<close> and \<^verbatim>\<open>has_value\<close> it updates.
\<close>

fun row_cells ::
  "int \<Rightarrow> nat \<Rightarrow> wrapper list \<Rightarrow> string option list \<Rightarrow> string list \<Rightarrow> bool
     \<Rightarrow> error + (string list \<times> bool)" where
  "row_cells row col ws [] values has_value = Inr (values, has_value)"
| "row_cells row col ws (c # cs) values has_value =
     (let cell0 = quote c;
          has_value' = (if cell0 \<noteq> [] then True else has_value)
      in case wrap_all ws (Some row, Some (int col)) cell0 of
           Inl e \<Rightarrow> Inl e
         | Inr cell1 \<Rightarrow> row_cells row (Suc col) ws cs (values @ [cell1]) has_value')"

fun wrap_row_all :: "wrapper list \<Rightarrow> int \<Rightarrow> string \<Rightarrow> string" where
  "wrap_row_all [] row v = v"
| "wrap_row_all (w # ws) row v = wrap_row_all ws row (wrap_row w row v)"

text \<open>\<^verbatim>\<open>print_row\<close>: the result is the text it prints.\<close>

definition print_row ::
  "nat \<Rightarrow> row_dict \<Rightarrow> string list \<Rightarrow> wrapper list \<Rightarrow> row_template \<Rightarrow> error + string" where
  "print_row row d cols ws row_template =
     (case lookup_all d cols of
        Inl e \<Rightarrow> Inl e
      | Inr cells \<Rightarrow>
          (case row_cells (int row) 0 ws cells [] False of
             Inl e \<Rightarrow> Inl e
           | Inr (values, has_value) \<Rightarrow>
               (case row_template values has_value of
                  Inl e \<Rightarrow> Inl e
                | Inr v \<Rightarrow> Inr (wrap_row_all ws (int row) v))))"

text \<open>
  The CSV tokenizer is library code: the input file is given as the rows
  \<^verbatim>\<open>csv.reader\<close> yields for it. \<^verbatim>\<open>DictReader\<close> skips empty rows and pairs the field names
  with the fields of a row; a field name a short row lacks gets \<^verbatim>\<open>None\<close>. The fields a
  long row has beyond the field names go under the key \<^verbatim>\<open>None\<close>, which no column name
  equals, so they are left out.
\<close>

definition dict_of_row :: "string list \<Rightarrow> string list \<Rightarrow> row_dict" where
  "dict_of_row fieldnames r =
     fold (\<lambda>k m. m(k \<mapsto> None)) (drop (length r) fieldnames)
       (fold (\<lambda>(k, v) m. m(k \<mapsto> Some v)) (zip fieldnames r) Map.empty)"

definition DictReader_rows :: "string list \<Rightarrow> string list list \<Rightarrow> row_dict list" where
  "DictReader_rows fieldnames body = map (dict_of_row fieldnames) (filter (\<lambda>r. r \<noteq> []) body)"

text \<open>
  A run ends with the text written to the standard output and, when an exception ended
  it, that exception. The loop of \<^verbatim>\<open>print_table\<close> counts the rows the row filter lets
  through and prints each; the first exception ends the run with what was printed so far.
\<close>

type_synonym run = "string \<times> error option"

fun print_rows ::
  "nat \<Rightarrow> row_dict list \<Rightarrow> string list \<Rightarrow> wrapper list \<Rightarrow> row_template \<Rightarrow> string \<Rightarrow> run" where
  "print_rows row [] cols ws row_template out = (out, None)"
| "print_rows row (d # ds) cols ws row_template out =
     (case print_row row d cols ws row_template of
        Inl e \<Rightarrow> (out, Some e)
      | Inr text \<Rightarrow> print_rows (Suc row) ds cols ws row_template (out @ text))"

text \<open>
  \<^verbatim>\<open>print_table\<close>. Skipping more lines than the file has raises \<^verbatim>\<open>StopIteration\<close>; a
  file with no header line has no field names, and the column filter raises
  \<^verbatim>\<open>TypeError\<close> on \<^verbatim>\<open>None\<close>.
\<close>

definition print_table ::
  "string list list \<Rightarrow> Span list \<Rightarrow> Span list \<Rightarrow> int \<Rightarrow> bool \<Rightarrow> string list
     \<Rightarrow> wrapper list \<Rightarrow> row_template \<Rightarrow> run" where
  "print_table fh rows cols start_at skip_headers skip_cols ws row_template =
     (if int (length fh) < start_at then ([], Some StopIteration)
      else
        (case drop (nat start_at) fh of
           [] \<Rightarrow> ([], Some TypeError)
         | fieldnames # body \<Rightarrow>
             (let cols1 = Spans_filter cols fieldnames;
                  cols2 = (if skip_cols \<noteq> [] then filter (\<lambda>c. c \<notin> set skip_cols) cols1 else cols1);
                  data = DictReader_rows fieldnames body;
                  data1 = (if \<not> skip_headers
                           then fold (\<lambda>(k, v) m. m(k \<mapsto> Some v)) (zip cols2 cols2) Map.empty # data
                           else data)
              in print_rows 0 (Spans_filter rows data1) cols2 ws row_template [])))"

section \<open>The command\<close>

text \<open>
  \<^verbatim>\<open>wrappers.sort(key=lambda w: w.priority, reverse=True)\<close>: a stable sort, which with
  \<^verbatim>\<open>reverse\<close> reverses the list, sorts it by ascending key and reverses it again, so that
  modifiers of equal priority keep their order.
\<close>

definition sort_wrappers :: "wrapper list \<Rightarrow> wrapper list" where
  "sort_wrappers ws = rev (sort_key priority (rev ws))"

fun parse_modifiers :: "string list \<Rightarrow> (Span list \<Rightarrow> spans) \<Rightarrow> error + wrapper list" where
  "parse_modifiers [] spans_cls = Inr []"
| "parse_modifiers (m # ms) spans_cls =
     (case parse_modifier m spans_cls of
        Inl e \<Rightarrow> Inl e
      | Inr w \<Rightarrow> (case parse_modifiers ms spans_cls of Inl e \<Rightarrow> Inl e | Inr ws \<Rightarrow> Inr (w # ws)))"

text \<open>
  The options of the command, with the names of the parameters of \<^verbatim>\<open>main\<close>. The
  template engine is library code: a template file is given as the result of compiling
  it, an exception or the row template it renders.
\<close>

record options =
  rows :: "string option"
  cols :: "string option"
  start_at :: int
  skip_cols :: "string option"
  row_modifiers :: "string list"
  col_modifiers :: "string list"
  border_top :: "string option"
  border_mid :: bool
  border_mid_cmd :: string
  border_bottom :: bool
  skip_headers :: bool
  template :: "(error + row_template) option"

definition default_options :: options where
  "default_options =
     \<lparr> rows = None, cols = None, start_at = 0, skip_cols = None,
       row_modifiers = [], col_modifiers = [], border_top = None,
       border_mid = True, border_mid_cmd = ''midrule'', border_bottom = True,
       skip_headers = True, template = None \<rparr>"

text \<open>An option text that is \<^verbatim>\<open>None\<close> or empty is false.\<close>

fun given :: "string option \<Rightarrow> string option" where
  "given None = None"
| "given (Some s) = (if s = [] then None else Some s)"

text \<open>
  The pipeline \<^verbatim>\<open>main\<close> builds before it renders: the two row modifiers that are always
  there, the row modifiers and the column modifiers of the options, sorted.
\<close>

definition build_wrappers :: "options \<Rightarrow> error + wrapper list" where
  "build_wrappers opts =
     (case (case given (border_top opts) of
              None \<Rightarrow> Inr [Span (Some 1) None]
            | Some t \<Rightarrow> Spans_parse t) of
        Inl e \<Rightarrow> Inl e
      | Inr border_spans \<Rightarrow>
          (case parse_modifiers (row_modifiers opts) RowSpans of
             Inl e \<Rightarrow> Inl e
           | Inr rms \<Rightarrow>
               (case parse_modifiers (col_modifiers opts) ColSpans of
                  Inl e \<Rightarrow> Inl e
                | Inr cms \<Rightarrow>
                    Inr (sort_wrappers
                          ([RowBorderWrapper (RowSpans border_spans) (border_mid opts) False
                              (border_mid_cmd opts),
                            RowWrapper (RowSpans Spans_all)] @ rms @ cms)))))"

text \<open>
  \<^verbatim>\<open>main\<close>. Every exception before \<^verbatim>\<open>print_table\<close> ends the run with nothing written.
  The closing rule is printed when \<^verbatim>\<open>print_table\<close> has returned and \<^verbatim>\<open>border_bottom\<close>
  is set.
\<close>

definition main :: "options \<Rightarrow> string list list \<Rightarrow> run" where
  "main opts path =
     (case (case given (rows opts) of None \<Rightarrow> Inr Spans_all | Some t \<Rightarrow> Spans_parse t) of
        Inl e \<Rightarrow> ([], Some e)
      | Inr row_spans \<Rightarrow>
          (case (case given (cols opts) of None \<Rightarrow> Inr Spans_all | Some t \<Rightarrow> Spans_parse t) of
             Inl e \<Rightarrow> ([], Some e)
           | Inr col_spans \<Rightarrow>
               (let skip = (case given (skip_cols opts) of
                              None \<Rightarrow> []
                            | Some t \<Rightarrow> str_split (CHR '','') t)
                in case build_wrappers opts of
                     Inl e \<Rightarrow> ([], Some e)
                   | Inr ws \<Rightarrow>
                       (case (case template opts of
                                None \<Rightarrow> Inr simple_row
                              | Some t \<Rightarrow> t) of
                          Inl e \<Rightarrow> ([], Some e)
                        | Inr template_func \<Rightarrow>
                            (case print_table path row_spans col_spans (start_at opts)
                                    (skip_headers opts) skip ws template_func of
                               (out, Some e) \<Rightarrow> (out, Some e)
                             | (out, None) \<Rightarrow>
                                 (if border_bottom opts
                                  then (out @ bslash # ''midrule'' @ [newline], None)
                                  else (out, None)))))))"

text \<open>The exit status of the process: 0 after a run that ended normally, 1 after an
  uncaught exception.\<close>

definition exit_status :: "run \<Rightarrow> int" where
  "exit_status r = (case snd r of None \<Rightarrow> 0 | Some e \<Rightarrow> 1)"

section \<open>Properties of the text functions\<close>

lemma below_ten: "(d::nat) < 10 \<Longrightarrow> d = 0 \<or> d = 1 \<or> d = 2 \<or> d = 3 \<or> d = 4 \<or> d = 5 \<or> d = 6 \<or> d = 7 \<or> d = 8 \<or> d = 9"
  by arith

lemma digit_val_digit_char: "d < 10 \<Longrightarrow> digit_val (digit_char d) = d"
  by (drule below_ten) (elim disjE; simp add: digit_val_def digit_char_def)

lemma is_digit_digit_char: "d < 10 \<Longrightarrow> is_digit (digit_char d)"
  by (drule below_ten) (elim disjE; simp add: is_digit_def digit_char_def)

lemma str_nat_digits: "list_all is_digit (str_nat n)"
proof (induction n rule: str_nat.induct)
  case (1 n)
  show ?case
  proof (cases "n < 10")
    case True
    then show ?thesis by (subst str_nat.simps) (simp add: is_digit_digit_char)
  next
    case False
    then show ?thesis using 1
      by (subst str_nat.simps) (simp add: is_digit_digit_char)
  qed
qed

lemma str_nat_nonempty: "str_nat n \<noteq> []"
  by (subst str_nat.simps) simp

lemma nat_of_digits_snoc: "nat_of_digits (ds @ [c]) = 10 * nat_of_digits ds + digit_val c"
  by (simp add: nat_of_digits_def)

lemma nat_of_digits_str_nat: "nat_of_digits (str_nat n) = n"
proof (induction n rule: str_nat.induct)
  case (1 n)
  show ?case
  proof (cases "n < 10")
    case True
    then show ?thesis
      by (subst str_nat.simps) (simp add: nat_of_digits_def digit_val_digit_char)
  next
    case False
    then show ?thesis using 1
      by (subst str_nat.simps) (simp add: nat_of_digits_snoc digit_val_digit_char)
  qed
qed

lemma int_literal_digits: "ds \<noteq> [] \<Longrightarrow> list_all is_digit ds \<Longrightarrow> int_literal ds"
proof (induction ds rule: int_literal.induct)
  case 1
  then show ?case by simp
next
  case (2 c)
  then show ?case by simp
next
  case (3 c d cs)
  then have "d \<noteq> CHR ''_''" by (auto simp: is_digit_def)
  with 3 show ?case by simp
qed

lemma digit_not_space: "is_digit c \<Longrightarrow> \<not> is_space c"
  by (auto simp: is_digit_def is_space_def)

lemma strip_pred_id: "s \<noteq> [] \<Longrightarrow> \<not> p (hd s) \<Longrightarrow> \<not> p (last s) \<Longrightarrow> strip_pred p s = s"
proof -
  assume a: "s \<noteq> []" "\<not> p (hd s)" "\<not> p (last s)"
  then have 1: "dropWhile p s = s" by (cases s) auto
  from a have "dropWhile p (rev s) = rev s"
    by (cases "rev s") (auto simp: last_rev [symmetric] hd_rev)
  with 1 show ?thesis by (simp add: strip_pred_def)
qed

lemma strip_digits: "ds \<noteq> [] \<Longrightarrow> list_all is_digit ds \<Longrightarrow> strip ds = ds"
  unfolding strip_def
  by (rule strip_pred_id) (auto simp: list_all_iff digit_not_space)

lemma py_int_str_nat: "py_int (str_nat n) = Inr (int n)"
proof -
  let ?s = "str_nat n"
  have ne: "?s \<noteq> []" by (rule str_nat_nonempty)
  have dg: "list_all is_digit ?s" by (rule str_nat_digits)
  have st: "strip ?s = ?s" using ne dg by (rule strip_digits)
  have hd: "is_digit (hd ?s)" using ne dg by (cases ?s) auto
  then have nosign: "hd ?s \<noteq> CHR ''-''" "hd ?s \<noteq> CHR ''+''"
    by (auto simp: is_digit_def)
  have fl: "filter is_digit ?s = ?s" using dg by (simp add: list_all_iff)
  show ?thesis
    by (simp add: py_int_def st nosign fl nat_of_digits_str_nat int_literal_digits [OF ne dg])
qed

lemma str_partition_none: "sep \<notin> set s \<Longrightarrow> str_partition sep s = (s, [], [])"
proof -
  assume "sep \<notin> set s"
  then have "dropWhile (\<lambda>c. c \<noteq> sep) s = []" by (induction s) auto
  then show ?thesis unfolding str_partition_def by (simp only: list.case)
qed

lemma str_partition_first:
  "sep \<notin> set a \<Longrightarrow> str_partition sep (a @ sep # b) = (a, [sep], b)"
proof -
  assume n: "sep \<notin> set a"
  then have "dropWhile (\<lambda>c. c \<noteq> sep) (a @ sep # b) = sep # b"
    by (induction a) auto
  moreover from n have "takeWhile (\<lambda>c. c \<noteq> sep) (a @ sep # b) = a"
    by (induction a) auto
  ultimately show ?thesis by (simp add: str_partition_def)
qed

lemma not_digit_chars:
  "\<not> is_digit (CHR ''-'')" "\<not> is_digit (CHR ''+'')" "\<not> is_digit (CHR ''_'')"
  "\<not> is_digit (CHR ''.'')" "\<not> is_digit (CHR '','')" "\<not> is_digit (CHR '':'')"
  by (simp_all add: is_digit_def)

lemma dash_not_digit: "CHR ''-'' \<notin> set (str_nat n)"
proof
  assume "CHR ''-'' \<in> set (str_nat n)"
  with str_nat_digits [of n] have "is_digit (CHR ''-'')"
    unfolding list_all_iff by blast
  then show False by (simp add: not_digit_chars)
qed

lemma str_nat_small: "str_nat 2 = ''2''" "str_nat 3 = ''3''" "str_nat 4 = ''4''"
  by (simp_all add: str_nat.simps digit_char_def)

section \<open>Properties of spans\<close>

lemma Span_parse_single: "Span_parse (str_nat n) = Inr (Span (Some (int n)) (Some (int n + 1)))"
  by (simp add: Span_parse_def str_nat_nonempty str_partition_none dash_not_digit py_int_str_nat)

lemma Span_parse_range:
  "Span_parse (str_nat a @ CHR ''-'' # str_nat b) = Inr (Span (Some (int a)) (Some (int b + 1)))"
  by (simp add: Span_parse_def str_nat_nonempty str_partition_first dash_not_digit py_int_str_nat)

lemma Span_parse_from:
  "Span_parse (str_nat a @ ''-'') = Inr (Span (Some (int a)) None)"
  by (simp add: Span_parse_def str_nat_nonempty str_partition_first dash_not_digit py_int_str_nat)

lemma Span_parse_upto:
  "Span_parse (CHR ''-'' # str_nat b) = Inr (Span None (Some (int b + 1)))"
  using str_partition_first [of "CHR ''-''" "[]" "str_nat b"]
  by (simp add: Span_parse_def str_nat_nonempty py_int_str_nat)

lemma filter_from_nth:
  "filter_from spans k xs =
     map (\<lambda>i. xs ! i) (filter (\<lambda>i. Spans_contains spans (int (k + i))) [0..<length xs])"
proof (induction xs arbitrary: k)
  case Nil
  then show ?case by simp
next
  case (Cons v vs)
  have upt: "[0..<length (v # vs)] = 0 # map Suc [0..<length vs]"
    by (simp add: upt_conv_Cons map_Suc_upt del: upt_Suc)
  show ?case
    unfolding upt
    by (simp add: Cons.IH [of "Suc k"] filter_map o_def algebra_simps)
qed

text \<open>
  C2. \<^verbatim>\<open>Spans.filter\<close> yields the elements at the indices the span set contains, in
  increasing index order, and nothing for the other indices. It yields the elements
  themselves, not pairs of index and element.
\<close>

theorem Spans_filter_values:
  "Spans_filter spans xs =
     map (\<lambda>i. xs ! i) (filter (\<lambda>i. Spans_contains spans (int i)) [0..<length xs])"
  by (simp add: Spans_filter_def filter_from_nth)

text \<open>
  On the two-element list \<open>["a", "b"]\<close> and the span set that contains everything,
  \<^verbatim>\<open>filter\<close> yields the two strings, and not the pairs \<open>(0, "a")\<close> and \<open>(1, "b")\<close>.
\<close>

theorem Spans_filter_pairs_counterexample:
  "Spans_filter Spans_all [PyStr ''a'', PyStr ''b''] = [PyStr ''a'', PyStr ''b'']
   \<and> filter_pairs_spec Spans_all [PyStr ''a'', PyStr ''b'']
       = [PyTuple [PyInt 0, PyStr ''a''], PyTuple [PyInt 1, PyStr ''b'']]
   \<and> Spans_filter Spans_all [PyStr ''a'', PyStr ''b'']
       \<noteq> filter_pairs_spec Spans_all [PyStr ''a'', PyStr ''b'']"
  by (simp add: Spans_filter_def filter_pairs_spec_def Spans_all_def upt_rec)

text \<open>
  C4. \<^verbatim>\<open>Span.parse\<close> on the four textual forms, for natural numbers written in decimal:
  \<open>n\<close> is the interval from \<open>n\<close> to \<open>n + 1\<close>, \<open>a-b\<close> the interval from \<open>a\<close> to \<open>b + 1\<close>,
  \<open>a-\<close> everything from \<open>a\<close> on, and \<open>-b\<close> everything below \<open>b + 1\<close>, the negative
  integers included; on the indices from 0 on, which are those of rows and columns,
  \<open>-b\<close> is the interval from 0 to \<open>b + 1\<close>. \<^verbatim>\<open>Span.parse("2-4")\<close> contains 2, 3 and 4
  and neither 1 nor 5.
\<close>

theorem Span_parse_forms:
  "Span_parse (str_nat n) = Inr (Span (Some (int n)) (Some (int n + 1)))
   \<and> Span_contains (Span (Some (int n)) (Some (int n + 1))) i = (int n \<le> i \<and> i < int n + 1)
   \<and> Span_parse (str_nat a @ ''-'' @ str_nat b) = Inr (Span (Some (int a)) (Some (int b + 1)))
   \<and> Span_contains (Span (Some (int a)) (Some (int b + 1))) i = (int a \<le> i \<and> i < int b + 1)
   \<and> Span_parse (str_nat a @ ''-'') = Inr (Span (Some (int a)) None)
   \<and> Span_contains (Span (Some (int a)) None) i = (int a \<le> i)
   \<and> Span_parse (''-'' @ str_nat b) = Inr (Span None (Some (int b + 1)))
   \<and> Span_contains (Span None (Some (int b + 1))) i = (i < int b + 1)
   \<and> Span_contains (Span None (Some (int b + 1))) (int j) = (0 \<le> int j \<and> int j < int b + 1)
   \<and> Span_parse ''2-4'' = Inr (Span (Some 2) (Some 5))
   \<and> Span_contains (Span (Some 2) (Some 5)) 2
   \<and> Span_contains (Span (Some 2) (Some 5)) 3
   \<and> Span_contains (Span (Some 2) (Some 5)) 4
   \<and> \<not> Span_contains (Span (Some 2) (Some 5)) 1
   \<and> \<not> Span_contains (Span (Some 2) (Some 5)) 5"
  using Span_parse_range [of 2 4]
  by (simp add: Span_parse_single Span_parse_range Span_parse_from Span_parse_upto str_nat_small)

text \<open>
  \<^verbatim>\<open>Span.parse("-3")\<close> has no start, so it contains \<open>-1\<close>, which is not in the interval
  from 0 to 4.
\<close>

theorem Span_parse_upto_counterexample:
  "Span_parse ''-3'' = Inr (Span None (Some 4))
   \<and> Span_contains (Span None (Some 4)) (- 1)
   \<and> \<not> (0 \<le> (- 1 :: int) \<and> (- 1 :: int) < 3 + 1)"
  using Span_parse_upto [of 3] by (simp add: str_nat_small)

section \<open>Properties of the pipeline\<close>

lemma set_sort_wrappers: "set (sort_wrappers ws) = set ws"
  by (simp add: sort_wrappers_def)

lemma sorted_sort_wrappers: "sorted_wrt (\<lambda>a b. priority b \<le> priority a) (sort_wrappers ws)"
proof -
  have "sorted (map priority (sort_key priority (rev ws)))"
    by (rule sorted_sort_key)
  then have "sorted_wrt (\<lambda>a b. priority a \<le> priority b) (sort_key priority (rev ws))"
    by (simp add: sorted_map)
  then show ?thesis
    by (simp add: sort_wrappers_def sorted_wrt_rev)
qed

lemma build_wrappers_set:
  assumes "build_wrappers opts = Inr ws"
  shows "RowWrapper (RowSpans Spans_all) \<in> set ws"
  using assms
  by (auto simp: build_wrappers_def set_sort_wrappers split: sum.splits option.splits)

section \<open>Properties of quoting\<close>

lemma replace_Nil: "old \<noteq> [] \<Longrightarrow> replace old new [] = []"
  by (simp add: replace.simps)

lemma replace_char:
  "replace [c] new s = concat (map (\<lambda>x. if x = c then new else [x]) s)"
proof (induction s)
  case Nil
  then show ?case by (simp add: replace.simps)
next
  case (Cons x xs)
  then show ?case by (subst replace.simps) simp
qed

lemma escapes_char:
  "concat (map (\<lambda>x. if x = CHR ''}'' then [bslash, CHR ''}''] else [x])
    (concat (map (\<lambda>x. if x = CHR ''{'' then [bslash, CHR ''{''] else [x])
      (concat (map (\<lambda>x. if x = CHR ''_'' then [bslash, CHR ''_''] else [x])
        (concat (map (\<lambda>x. if x = CHR ''$'' then [bslash, CHR ''$''] else [x])
          (concat (map (\<lambda>x. if x = CHR ''&'' then [bslash, CHR ''&''] else [x])
            (concat (map (\<lambda>x. if x = CHR ''#'' then [bslash, CHR ''#''] else [x])
              (concat (map (\<lambda>x. if x = CHR ''%'' then [bslash, CHR ''%''] else [x]) [c])))))))))))))
   = escape_char c"
  by (simp add: escape_char_def specials_def)

lemma escapes_eq:
  "replace ''}'' [bslash, CHR ''}'']
    (replace ''{'' [bslash, CHR ''{'']
      (replace ''_'' [bslash, CHR ''_'']
        (replace ''$'' [bslash, CHR ''$'']
          (replace ''&'' [bslash, CHR ''&'']
            (replace ''#'' [bslash, CHR ''#'']
              (replace ''%'' [bslash, CHR ''%''] s))))))
   = concat (map escape_char s)"
  unfolding replace_char
proof (induction s)
  case Nil
  show ?case by simp
next
  case (Cons c cs)
  have split: "c # cs = [c] @ cs" by simp
  show ?case
    unfolding split map_append concat_append escapes_char Cons.IH
    by simp
qed

lemma replace_pairs:
  "replace [bslash, bslash] [bslash, bslash, bslash, bslash] s = double_pairs s"
proof (induction s rule: double_pairs.induct)
  case (1 a b cs)
  then show ?case by (subst replace.simps) simp
next
  case (2 a)
  show ?case by (subst replace.simps, simp, subst replace.simps, simp)
next
  case 3
  show ?case by (simp add: replace.simps)
qed

lemma quote_refines:
  "quote (Some t) =
     replace [bslash, bslash] [bslash, bslash, bslash, bslash] (concat (map escape_char (strip t)))"
proof (cases "t = []")
  case True
  then show ?thesis
    by (simp add: quote_def strip_def strip_pred_def replace_Nil)
next
  case False
  then show ?thesis
    by (simp add: quote_def escapes_eq)
qed


lemma strip_all_space: "\<forall>c\<in>set t. is_space c \<Longrightarrow> strip t = []"
proof -
  assume "\<forall>c\<in>set t. is_space c"
  then have dw: "dropWhile is_space t = []" by (induction t) auto
  show ?thesis unfolding strip_def strip_pred_def dw by simp
qed

lemma strip_no_space: "\<forall>c\<in>set t. \<not> is_space c \<Longrightarrow> strip t = t"
proof (cases "t = []")
  case True
  then show ?thesis by (simp add: strip_def strip_pred_def)
next
  case False
  assume "\<forall>c\<in>set t. \<not> is_space c"
  with False have "\<not> is_space (hd t)" "\<not> is_space (last t)" by auto
  with False show ?thesis unfolding strip_def by (intro strip_pred_id)
qed

lemma replace_no_bslash:
  "bslash \<notin> set s \<Longrightarrow> replace [bslash, bslash] new s = s"
proof (induction s)
  case Nil
  then show ?case by (simp add: replace.simps)
next
  case (Cons x xs)
  then have "x \<noteq> bslash" by auto
  with Cons show ?case by (subst replace.simps) (cases xs; simp)
qed

lemma replace_escaped:
  "bslash \<notin> set a \<Longrightarrow>
   replace [bslash, bslash] new (concat (map (\<lambda>c. [bslash, c]) a))
     = concat (map (\<lambda>c. [bslash, c]) a)"
proof (induction a)
  case Nil
  then show ?case by (simp add: replace.simps)
next
  case (Cons x xs)
  then have x: "x \<noteq> bslash" by auto
  have step2: "replace [bslash, bslash] new (x # ys) = x # replace [bslash, bslash] new ys" for ys
    using x by (subst replace.simps) (cases ys; simp)
  have step1: "replace [bslash, bslash] new (bslash # x # ys)
                 = bslash # replace [bslash, bslash] new (x # ys)" for ys
    using x by (subst replace.simps) simp
  from Cons show ?case by (simp add: step1 step2)
qed

lemma special_not_space: "c \<in> set specials \<Longrightarrow> \<not> is_space c"
  by (auto simp: specials_def is_space_def)

lemma special_not_bslash: "bslash \<notin> set specials"
  by (simp add: specials_def)

lemma escape_specials:
  "set a \<subseteq> set specials \<Longrightarrow> concat (map escape_char a) = concat (map (\<lambda>c. [bslash, c]) a)"
  by (induction a) (auto simp: escape_char_def)

lemma quote_specials:
  assumes "set a \<subseteq> set specials"
  shows "quote (Some a) = concat (map (\<lambda>c. [bslash, c]) a)"
proof -
  have "\<forall>c\<in>set a. \<not> is_space c" using assms special_not_space by blast
  then have st: "strip a = a" by (rule strip_no_space)
  have nb: "bslash \<notin> set a" using assms special_not_bslash by blast
  show ?thesis
    by (simp add: quote_refines st escape_specials [OF assms] replace_escaped [OF nb])
qed

lemma alnum_plain: "is_alnum c \<Longrightarrow> \<not> is_space c \<and> c \<noteq> bslash \<and> c \<notin> set specials"
  by (auto simp: is_alnum_def is_space_def specials_def Let_def)

lemma quote_alnum:
  assumes "\<forall>c\<in>set t. is_alnum c"
  shows "quote (Some t) = t"
proof -
  have "\<forall>c\<in>set t. \<not> is_space c" using assms alnum_plain by blast
  then have st: "strip t = t" by (rule strip_no_space)
  have nb: "bslash \<notin> set t" using assms alnum_plain by blast
  have "\<forall>c\<in>set t. c \<notin> set specials" using assms alnum_plain by blast
  then have esc: "concat (map escape_char t) = t"
    by (induction t) (auto simp: escape_char_def)
  show ?thesis
    by (simp add: quote_refines st esc replace_no_bslash [OF nb])
qed

text \<open>
  C6. \<^verbatim>\<open>quote\<close> puts a backslash before each of the characters percent, hash,
  ampersand, dollar, underscore and the two braces of the stripped text, leaves every
  other character as it is, and then, reading the escaped text from the left, turns
  every two adjacent backslashes into four (so a backslash before a special character
  and the one put in front of it make four); it maps
  \<^verbatim>\<open>None\<close>, the empty text and a text of whitespace to the empty text; it leaves a text
  of letters and digits unchanged; and on texts of the seven special characters it is a
  homomorphism for concatenation.
\<close>

theorem quote_escapes:
  "quote None = []
   \<and> quote (Some t) = double_pairs (concat (map escape_char (strip t)))
   \<and> ((\<forall>c\<in>set t. is_space c) \<longrightarrow> quote (Some t) = [])
   \<and> ((\<forall>c\<in>set t. is_alnum c) \<longrightarrow> quote (Some t) = t)
   \<and> (set a \<subseteq> set specials \<and> set b \<subseteq> set specials \<longrightarrow>
        quote (Some a) = concat (map (\<lambda>c. [bslash, c]) a)
        \<and> quote (Some (a @ b)) = quote (Some a) @ quote (Some b))"
proof (intro conjI impI)
  show "quote None = []" by (simp add: quote_def)
  show "quote (Some t) = double_pairs (concat (map escape_char (strip t)))"
    by (simp add: quote_refines replace_pairs)
  show "quote (Some t) = []" if "\<forall>c\<in>set t. is_space c"
    using that by (simp add: quote_refines strip_all_space replace_Nil)
  show "quote (Some t) = t" if "\<forall>c\<in>set t. is_alnum c"
    using that by (rule quote_alnum)
  show "quote (Some a) = concat (map (\<lambda>c. [bslash, c]) a)"
    if "set a \<subseteq> set specials \<and> set b \<subseteq> set specials"
    using that by (simp add: quote_specials)
  show "quote (Some (a @ b)) = quote (Some a) @ quote (Some b)"
    if "set a \<subseteq> set specials \<and> set b \<subseteq> set specials"
  proof -
    from that have "set (a @ b) \<subseteq> set specials" by simp
    then have "quote (Some (a @ b)) = concat (map (\<lambda>c. [bslash, c]) (a @ b))"
      by (rule quote_specials)
    with that show ?thesis by (simp add: quote_specials)
  qed
qed

text \<open>
  The text \<open>50% & 3#\<close>; two, three and one backslash, and a backslash before a
  percent sign; a text of whitespace, a text of letters and digits, and two texts of
  special characters.
\<close>

theorem quote_escapes_witness:
  "quote (Some ''50% & 3#'')
     = [CHR ''5'', CHR ''0'', bslash, CHR ''%'', CHR '' '', bslash, CHR ''&'', CHR '' '',
        CHR ''3'', bslash, CHR ''#'']
   \<and> quote (Some [CHR ''a'', bslash, bslash, CHR ''b''])
     = [CHR ''a'', bslash, bslash, bslash, bslash, CHR ''b'']
   \<and> quote (Some [bslash, bslash, bslash]) = [bslash, bslash, bslash, bslash, bslash]
   \<and> quote (Some [bslash, CHR ''%'']) = [bslash, bslash, bslash, bslash, CHR ''%'']
   \<and> quote (Some [bslash, CHR ''n'']) = [bslash, CHR ''n'']
   \<and> quote (Some [CHR '' '', newline]) = []
   \<and> quote (Some ''a1Z'') = ''a1Z''
   \<and> quote (Some ''%{'') = [bslash, CHR ''%'', bslash, CHR ''{'']
   \<and> quote (Some (''%{'' @ ''}_'')) = quote (Some ''%{'') @ quote (Some ''}_'')"
  using quote_escapes [of "''50% & 3#''" "[]" "[]"]
    quote_escapes [of "[CHR ''a'', bslash, bslash, CHR ''b'']" "[]" "[]"]
    quote_escapes [of "[bslash, bslash, bslash]" "[]" "[]"]
    quote_escapes [of "[bslash, CHR ''%'']" "[]" "[]"]
    quote_escapes [of "[bslash, CHR ''n'']" "[]" "[]"]
    quote_escapes [of "[CHR '' '', newline]" "[]" "[]"]
    quote_escapes [of "''a1Z''" "''%{''" "''}_''"]
  by (simp add: escape_char_def specials_def is_space_def is_alnum_def strip_def strip_pred_def)

section \<open>Properties of the numeric modifiers\<close>

lemmas eval_str = startswith_def endswith_def strip_def strip_pred_def is_space_def is_digit_def
  replace.simps str_nat.simps digit_char_def digit_val_def nat_of_digits_def

lemmas eval_re = re_match_def in_lang_def round_pattern_def percent_pattern_def

lemmas eval_dec = D_def quantize_def rescale_def round_coeff_def fix_ctx_def adjusted_def
  ndigits_def prec_def Emax_def Emin_def Etiny_def Etop_def str_decimal_def fmt_plus_d_def
  truediv_def mul_def strip_zeros.simps Let_def

lemma strip_pred_keeps_head:
  assumes "\<not> p x"
  shows "strip_pred p (x # xs) \<noteq> [] \<and> hd (strip_pred p (x # xs)) = x"
proof -
  have 1: "dropWhile p (x # xs) = x # xs" using assms by simp
  have "\<exists>ys. dropWhile p (rev xs @ [x]) = ys @ [x]"
    using assms by (simp add: dropWhile_append)
  then obtain ys where 2: "dropWhile p (rev (x # xs)) = ys @ [x]" by auto
  show ?thesis unfolding strip_pred_def 1 2 by simp
qed

lemma strip_minus_not_dots: "strip (CHR ''-'' # xs) \<noteq> ''...''"
proof -
  have "\<not> is_space (CHR ''-'')" by (simp add: is_space_def)
  then have "hd (strip (CHR ''-'' # xs)) = CHR ''-''"
    unfolding strip_def by (simp add: strip_pred_keeps_head)
  then show ?thesis by auto
qed

lemma round_plain_text:
  "\<not> (startswith v ''('' \<and> endswith v '')'') \<Longrightarrow> \<not> re_match round_pattern v \<Longrightarrow>
   RoundNumbers_apply decimals rnd v
     = Inr (''{'' @ (if strip v = ''...'' then bslash # ''dots'' else v) @ ''}'')"
  by (cases "startswith v ''(''") (simp_all add: RoundNumbers_apply_def)

lemma round_parenthesised_plain:
  "startswith v ''('' \<Longrightarrow> endswith v '')'' \<Longrightarrow>
   \<not> re_match round_pattern (CHR ''-'' # butlast (tl v)) \<Longrightarrow>
   RoundNumbers_apply decimals rnd v = Inr (''{-'' @ butlast (tl v) @ ''}'')"
  by (simp add: RoundNumbers_apply_def strip_minus_not_dots)

text \<open>
  C7. \<^verbatim>\<open>round\<close> rewrites a text in parentheses to the text after a minus sign before
  it tests the pattern, and the branch for the texts that are not numbers works on the
  rewritten text. So \<open>(abc)\<close>, which does not match the pattern, comes back as
  \<open>{-abc}\<close> and not as the unchanged text in a brace group; and \<open>(1.2.3)\<close>, which does
  not match the pattern either, matches it once rewritten and raises
  \<^verbatim>\<open>InvalidOperation\<close> in the conversion, for its two points. A text that is not in
  parentheses and does not match the pattern does come back unchanged in its brace
  group, as \<open>round_plain_text\<close> shows.
\<close>

theorem round_parenthesised_text:
  "\<not> re_match round_pattern ''(abc)''
   \<and> RoundNumbers_apply 0 None ''(abc)'' = Inr ''{-abc}''
   \<and> ''{-abc}'' \<noteq> ''{(abc)}''
   \<and> \<not> re_match round_pattern ''(1.2.3)''
   \<and> RoundNumbers_apply 0 None ''(1.2.3)'' = Inl InvalidOperation"
  by (simp add: RoundNumbers_apply_def eval_str eval_re eval_dec)

section \<open>Properties of the row renderer\<close>

lemma row_cells_flag:
  "row_cells row col ws cells vals hv = Inr (vals', hv') \<Longrightarrow>
   hv' = (hv \<or> (\<exists>c\<in>set cells. quote c \<noteq> []))"
proof (induction cells arbitrary: col vals hv)
  case Nil
  then show ?case by simp
next
  case (Cons c cs)
  then show ?case
    by (auto simp: Let_def split: sum.splits if_splits)
qed

lemma print_row_text:
  assumes "print_row r d ns ws tmpl = Inr out"
  shows "\<exists>cells vals hv v.
           lookup_all d ns = Inr cells
           \<and> row_cells (int r) 0 ws cells [] False = Inr (vals, hv)
           \<and> tmpl vals hv = Inr v
           \<and> out = wrap_row_all ws (int r) v"
  using assms by (auto simp: print_row_def split: sum.splits prod.splits)

text \<open>
  C10. The flag \<^verbatim>\<open>has_value\<close> that \<^verbatim>\<open>print_row\<close> passes to the row template holds
  exactly when the quoted text of some cell of the row is not empty. It does not depend
  on the modifiers: two pipelines give the same flag on the same cells, whatever they
  make of the cell texts. The default template joins the cells exactly when the flag is
  set.
\<close>

theorem has_value_flag:
  "(row_cells row 0 ws cells [] False = Inr (vals, has_value) \<longrightarrow>
      has_value = (\<exists>c\<in>set cells. quote c \<noteq> []))
   \<and> (row_cells row 0 ws cells [] False = Inr (vals, has_value)
        \<and> row_cells row 0 ws' cells [] False = Inr (vals', has_value') \<longrightarrow>
      has_value' = has_value)
   \<and> (print_row r d cs ws row_template = Inr out \<longrightarrow>
      (\<exists>cells vals v.
         lookup_all d cs = Inr cells
         \<and> row_template vals (\<exists>c\<in>set cells. quote c \<noteq> []) = Inr v
         \<and> out = wrap_row_all ws (int r) v))
   \<and> simple_row vs hv = Inr (if hv then str_join '' & '' vs else [])"
proof (intro conjI impI)
  show "has_value = (\<exists>c\<in>set cells. quote c \<noteq> [])"
    if "row_cells row 0 ws cells [] False = Inr (vals, has_value)"
    using row_cells_flag [OF that] by simp
  show "has_value' = has_value"
    if "row_cells row 0 ws cells [] False = Inr (vals, has_value)
        \<and> row_cells row 0 ws' cells [] False = Inr (vals', has_value')"
    using that row_cells_flag [of row 0 ws cells "[]" False vals has_value]
      row_cells_flag [of row 0 ws' cells "[]" False vals' has_value']
    by simp
  show "\<exists>cells vals v.
         lookup_all d cs = Inr cells
         \<and> row_template vals (\<exists>c\<in>set cells. quote c \<noteq> []) = Inr v
         \<and> out = wrap_row_all ws (int r) v"
    if "print_row r d cs ws row_template = Inr out"
  proof -
    from that obtain cells vs hv v where
      l: "lookup_all d cs = Inr cells" and
      c: "row_cells (int r) 0 ws cells [] False = Inr (vs, hv)" and
      t: "row_template vs hv = Inr v" and
      o: "out = wrap_row_all ws (int r) v"
      by (auto simp: print_row_def split: sum.splits prod.splits)
    from row_cells_flag [OF c] have "hv = (\<exists>c\<in>set cells. quote c \<noteq> [])" by simp
    with l t o show ?thesis by blast
  qed
  show "simple_row vs hv = Inr (if hv then str_join '' & '' vs else [])"
    by (simp add: simple_row_def)
qed

text \<open>
  A background colour makes two empty cells non-empty and the flag stays unset, so the
  default template gives the empty text; a row with one non-empty cell is joined.
\<close>

theorem has_value_flag_witness:
  "row_cells 0 0 [BackgroundColor (ColSpans Spans_all) (Some ''red'')] [Some [], None] [] False
     = Inr ([bslash # ''cellcolor{red}'', bslash # ''cellcolor{red}''], False)
   \<and> row_cells 0 0 [Dot (ColSpans Spans_all)] [Some ''x''] [] False
     = Inr ([bslash # ''textbullet''], True)
   \<and> simple_row [bslash # ''cellcolor{red}'', bslash # ''cellcolor{red}''] False = Inr []
   \<and> print_row 0 [''a'' \<mapsto> Some ''x'', ''b'' \<mapsto> None] [''a'', ''b''] [] simple_row = Inr ''x & ''"
  using has_value_flag [where row = 0 and ws = "[BackgroundColor (ColSpans Spans_all) (Some ''red'')]"
      and cells = "[Some [], None]"
      and vals = "[bslash # ''cellcolor{red}'', bslash # ''cellcolor{red}'']" and has_value = False
      and ws' = "[Dot (ColSpans Spans_all)]" and vals' = "[]" and has_value' = False
      and r = 0 and d = "[''a'' \<mapsto> Some ''x'', ''b'' \<mapsto> None]" and cs = "[''a'', ''b'']"
      and row_template = simple_row and out = "''x & ''"
      and vs = "[bslash # ''cellcolor{red}'', bslash # ''cellcolor{red}'']" and hv = False]
  by (simp add: wrap_def Spans_all_def quote_def print_row_def simple_row_def
        strip_def strip_pred_def is_space_def replace.simps)

section \<open>Evaluation of the command on examples\<close>

lemmas eval_parse = parse_modifier_def Spans_parse_def Span_parse_def str_partition_def py_int_def
  MODIFIERS_def numeral_2_eq_2 Wrapper_parse_def Bold_parse_def Italic_parse_def
  BackgroundColor_parse_def Dot_parse_def CheckmarkIfValue_parse_def CrossmarkIfValue_parse_def
  List_parse_def TextColor_parse_def RoundNumbers_parse_def Percent_parse_def

lemma parse_round_0:
  "parse_modifier ''0:round:0'' ColSpans
     = Inr (RoundNumbers (ColSpans [Span (Some 0) (Some 1)]) 0 None)"
  by (simp add: eval_parse eval_str)

lemma build_round_0:
  "build_wrappers (default_options\<lparr>col_modifiers := [''0:round:0'']\<rparr>)
     = Inr [RoundNumbers (ColSpans [Span (Some 0) (Some 1)]) 0 None,
            RowWrapper (RowSpans Spans_all),
            RowBorderWrapper (RowSpans [Span (Some 1) None]) True False ''midrule'']"
  by (simp add: build_wrappers_def default_options_def parse_round_0 sort_wrappers_def)

lemma round_0_digit:
  "RoundNumbers_apply 0 None ''1'' = Inr ''1''" "RoundNumbers_apply 0 None ''2'' = Inr ''2''"
  by (simp_all add: RoundNumbers_apply_def eval_str eval_re eval_dec)

lemma quote_cells:
  "quote (Some ''1'') = ''1''" "quote (Some ''(5)'') = ''(5)''"
  "quote (Some ''2'') = ''2''" "quote (Some ''10'') = ''10''"
  by (simp_all add: quote_def eval_str)

lemma dict_rows:
  "DictReader_rows [''a'', ''b''] [[''1'', ''(5)''], [''2'', ''10'']]
     = [[''a'' \<mapsto> Some ''1'', ''b'' \<mapsto> Some ''(5)''], [''a'' \<mapsto> Some ''2'', ''b'' \<mapsto> Some ''10'']]"
  by (simp add: DictReader_rows_def dict_of_row_def)

lemma row_0:
  "print_row 0 [''a'' \<mapsto> Some ''1'', ''b'' \<mapsto> Some ''(5)''] [''a'', ''b'']
     [RoundNumbers (ColSpans [Span (Some 0) (Some 1)]) 0 None,
      RowWrapper (RowSpans Spans_all),
      RowBorderWrapper (RowSpans [Span (Some 1) None]) True False ''midrule'']
     simple_row
   = Inr (''1 & (5)'' @ [newline, bslash, bslash, newline])"
  by (simp add: print_row_def wrap_def wrap_row_def Spans_all_def simple_row_def quote_cells
        round_0_digit)

lemma row_1:
  "print_row (Suc 0) [''a'' \<mapsto> Some ''2'', ''b'' \<mapsto> Some ''10''] [''a'', ''b'']
     [RoundNumbers (ColSpans [Span (Some 0) (Some 1)]) 0 None,
      RowWrapper (RowSpans Spans_all),
      RowBorderWrapper (RowSpans [Span (Some 1) None]) True False ''midrule'']
     simple_row
   = Inr (bslash # ''midrule'' @ [newline] @ ''2 & 10'' @ [newline, bslash, bslash, newline])"
  by (simp add: print_row_def wrap_def wrap_row_def Spans_all_def simple_row_def quote_cells
        round_0_digit)

lemma table_round_0:
  "print_table [[''a'', ''b''], [''1'', ''(5)''], [''2'', ''10'']] Spans_all Spans_all 0 True []
     [RoundNumbers (ColSpans [Span (Some 0) (Some 1)]) 0 None,
      RowWrapper (RowSpans Spans_all),
      RowBorderWrapper (RowSpans [Span (Some 1) None]) True False ''midrule'']
     simple_row
   = (''1 & (5)'' @ [newline, bslash, bslash, newline]
      @ bslash # ''midrule'' @ [newline] @ ''2 & 10'' @ [newline, bslash, bslash, newline], None)"
proof -
  have f1: "Spans_filter Spans_all [''a'', ''b''] = [''a'', ''b'']"
    by (simp add: Spans_filter_def Spans_all_def)
  have f2: "Spans_filter Spans_all [x, y] = [x, y]" for x y :: row_dict
    by (simp add: Spans_filter_def Spans_all_def)
  show ?thesis
    unfolding print_table_def
    by (simp add: f1 f2 dict_rows row_0 row_1 del: fun_upd_apply)
qed

lemma main_round_0:
  "main (default_options\<lparr>col_modifiers := [''0:round:0'']\<rparr>)
     [[''a'', ''b''], [''1'', ''(5)''], [''2'', ''10'']]
   = (''1 & (5)'' @ [newline, bslash, bslash, newline]
      @ bslash # ''midrule'' @ [newline]
      @ ''2 & 10'' @ [newline, bslash, bslash, newline]
      @ bslash # ''midrule'' @ [newline], None)"
  unfolding main_def build_round_0
  by (simp add: default_options_def table_round_0)

text \<open>
  C1. The input with the header \<open>a,b\<close> and the rows \<open>1,"(5)"\<close> and \<open>2,10\<close>, rendered
  with the column modifier \<open>0:round:0\<close> and the default options. The modifier covers
  column 0 only, so \<open>(5)\<close> in column 1 stays as it is; each row text is followed by a
  newline, two backslashes and a newline; the second row has the rule of the border
  modifier before it; and the closing rule ends the output.
\<close>

theorem render_example:
  "main (default_options\<lparr>col_modifiers := [''0:round:0'']\<rparr>)
     [[''a'', ''b''], [''1'', ''(5)''], [''2'', ''10'']]
   = (''1 & (5)'' @ [newline, bslash, bslash, newline]
      @ bslash # ''midrule'' @ [newline]
      @ ''2 & 10'' @ [newline, bslash, bslash, newline]
      @ bslash # ''midrule'' @ [newline], None)"
  by (rule main_round_0)

text \<open>
  The output is not the two rows \<open>1 & -5\<close> and \<open>2 & 10\<close> with their terminators and
  one closing rule, whether the terminator stands on a line of its own or after a space.
\<close>

theorem render_example_counterexample:
  "main (default_options\<lparr>col_modifiers := [''0:round:0'']\<rparr>)
     [[''a'', ''b''], [''1'', ''(5)''], [''2'', ''10'']]
   \<noteq> (''1 & -5'' @ [newline, bslash, bslash, newline]
      @ ''2 & 10'' @ [newline, bslash, bslash, newline]
      @ bslash # ''midrule'' @ [newline], None)
   \<and> main (default_options\<lparr>col_modifiers := [''0:round:0'']\<rparr>)
     [[''a'', ''b''], [''1'', ''(5)''], [''2'', ''10'']]
   \<noteq> (''1 & -5 '' @ [bslash, bslash, newline]
      @ ''2 & 10 '' @ [bslash, bslash, newline]
      @ bslash # ''midrule'' @ [newline], None)"
  by (simp add: main_round_0)

section \<open>The row-level pass\<close>

text \<open>
  The two row modifiers \<^verbatim>\<open>main\<close> adds have the priorities 1 and 0 and the modifiers of
  the registry have higher ones, so the sorted pipeline ends with the \<^verbatim>\<open>RowWrapper\<close> and
  the \<^verbatim>\<open>RowBorderWrapper\<close>, in this order.
\<close>

lemma insort_key_after:
  "\<forall>z\<in>set zs. f z < f x \<Longrightarrow> insort_key f x (zs @ rest) = zs @ insort_key f x rest"
  by (induction zs) auto

lemma foldr_insort_after:
  "\<forall>y\<in>set ys. \<forall>z\<in>set zs. f z < f y \<Longrightarrow>
   foldr (insort_key f) ys (zs @ rest) = zs @ foldr (insort_key f) ys rest"
  by (induction ys) (simp_all add: insort_key_after)

lemma sort_wrappers_rows:
  assumes "\<forall>w\<in>set us. 1 < priority w"
  shows "sort_wrappers (RowBorderWrapper sp t b c # RowWrapper sp' # us)
           = sort_wrappers us @ [RowWrapper sp', RowBorderWrapper sp t b c]"
proof -
  let ?B = "RowBorderWrapper sp t b c" and ?R = "RowWrapper sp'"
  have "sort_key priority (rev us @ [?R, ?B])
          = foldr (insort_key priority) (rev us) ([?B, ?R] @ [])"
    by (simp add: sort_key_def)
  also have "\<dots> = [?B, ?R] @ foldr (insort_key priority) (rev us) []"
    using assms by (intro foldr_insort_after) auto
  finally show ?thesis by (simp add: sort_wrappers_def sort_key_def)
qed

lemma parse_modifier_user:
  assumes "parse_modifier m cls = Inr w"
  shows "1 < priority w \<and> apply_row w v = v"
proof -
  have p: "1 < priority w \<and> apply_row w v = v"
    if "(key, parse) \<in> set MODIFIERS" "parse sp args = Inr w" for key parse sp args
    using that
    by (auto simp: MODIFIERS_def Wrapper_parse_def Bold_parse_def Italic_parse_def
          BackgroundColor_parse_def Dot_parse_def CheckmarkIfValue_parse_def
          CrossmarkIfValue_parse_def List_parse_def TextColor_parse_def RoundNumbers_parse_def
          Percent_parse_def Let_def split: if_splits option.splits sum.splits)
  from assms obtain key parse sp args where "map_of MODIFIERS key = Some parse" "parse sp args = Inr w"
    by (auto simp: parse_modifier_def split: list.splits sum.splits option.splits)
  then show ?thesis using p map_of_SomeD by metis
qed

lemma parse_modifiers_user:
  "parse_modifiers ms cls = Inr ws \<Longrightarrow> \<forall>w\<in>set ws. 1 < priority w \<and> (\<forall>v. apply_row w v = v)"
proof (induction ms arbitrary: ws)
  case Nil
  then show ?case by simp
next
  case (Cons m ms)
  then show ?case
    by (auto split: sum.splits dest: parse_modifier_user)
qed

lemma wrap_row_all_append:
  "wrap_row_all (xs @ ys) r v = wrap_row_all ys r (wrap_row_all xs r v)"
  by (induction xs arbitrary: v) simp_all

lemma wrap_row_all_identity:
  "\<forall>w\<in>set us. \<forall>v. apply_row w v = v \<Longrightarrow> wrap_row_all us r v = v"
  by (induction us arbitrary: v) (simp_all add: wrap_row_def)

lemma build_wrappers_rows:
  assumes "build_wrappers opts = Inr ws"
  shows "\<exists>bsp us. ws = us @ [RowWrapper (RowSpans Spans_all),
                             RowBorderWrapper (RowSpans bsp) (border_mid opts) False (border_mid_cmd opts)]
           \<and> (\<forall>w\<in>set us. \<forall>v. apply_row w v = v)"
proof -
  from assms obtain bsp rms cms where
    r: "parse_modifiers (row_modifiers opts) RowSpans = Inr rms" and
    c: "parse_modifiers (col_modifiers opts) ColSpans = Inr cms" and
    ws: "ws = sort_wrappers
          (RowBorderWrapper (RowSpans bsp) (border_mid opts) False (border_mid_cmd opts)
           # RowWrapper (RowSpans Spans_all) # (rms @ cms))"
    by (auto simp: build_wrappers_def split: sum.splits)
  have u: "\<forall>w\<in>set (rms @ cms). 1 < priority w \<and> (\<forall>v. apply_row w v = v)"
    using parse_modifiers_user [OF r] parse_modifiers_user [OF c] by auto
  then have "ws = sort_wrappers (rms @ cms)
                  @ [RowWrapper (RowSpans Spans_all),
                     RowBorderWrapper (RowSpans bsp) (border_mid opts) False (border_mid_cmd opts)]"
    unfolding ws by (intro sort_wrappers_rows) blast
  moreover have "\<forall>w\<in>set (sort_wrappers (rms @ cms)). \<forall>v. apply_row w v = v"
    using u by (simp add: set_sort_wrappers)
  ultimately show ?thesis by blast
qed

lemma build_wrappers_row_text:
  assumes "build_wrappers opts = Inr ws"
  shows "\<exists>rule. (rule = [] \<or> rule = bslash # border_mid_cmd opts @ [newline])
           \<and> wrap_row_all ws r v = rule @ wrap_row (RowWrapper (RowSpans Spans_all)) r v"
proof -
  from build_wrappers_rows [OF assms] obtain bsp us where
    ws: "ws = us @ [RowWrapper (RowSpans Spans_all),
                    RowBorderWrapper (RowSpans bsp) (border_mid opts) False (border_mid_cmd opts)]"
    and u: "\<forall>w\<in>set us. \<forall>v. apply_row w v = v"
    by blast
  have "wrap_row_all ws r v
          = wrap_row (RowBorderWrapper (RowSpans bsp) (border_mid opts) False (border_mid_cmd opts)) r
              (wrap_row (RowWrapper (RowSpans Spans_all)) r v)"
    unfolding ws by (simp add: wrap_row_all_append wrap_row_all_identity [OF u])
  then show ?thesis by (auto simp: wrap_row_def)
qed

lemma build_default:
  "build_wrappers default_options
     = Inr [RowWrapper (RowSpans Spans_all),
            RowBorderWrapper (RowSpans [Span (Some 1) None]) True False ''midrule'']"
  by (simp add: build_wrappers_def default_options_def sort_wrappers_def)

lemma quote_empty_cells: "quote (Some []) = []" "quote None = []"
  by (simp_all add: quote_def eval_str)

lemma row_default_0:
  "print_row 0 [''a'' \<mapsto> Some ''1'', ''b'' \<mapsto> Some ''2''] [''a'', ''b'']
     [RowWrapper (RowSpans Spans_all),
      RowBorderWrapper (RowSpans [Span (Some 1) None]) True False ''midrule'']
     simple_row
   = Inr (''1 & 2'' @ [newline, bslash, bslash, newline])"
  by (simp add: print_row_def wrap_def wrap_row_def Spans_all_def simple_row_def quote_cells)

lemma row_default_empty:
  "print_row (Suc 0) [''a'' \<mapsto> Some [], ''b'' \<mapsto> None] [''a'', ''b'']
     [RowWrapper (RowSpans Spans_all),
      RowBorderWrapper (RowSpans [Span (Some 1) None]) True False ''midrule'']
     simple_row
   = Inr (bslash # ''midrule'' @ [newline, bslash, bslash, newline])"
  by (simp add: print_row_def wrap_def wrap_row_def Spans_all_def simple_row_def quote_empty_cells)

lemma lookup_cells:
  "lookup_all [''a'' \<mapsto> Some [], ''b'' \<mapsto> None] [''a'', ''b''] = Inr [Some [], None]"
  "lookup_all [''a'' \<mapsto> Some ''1'', ''b'' \<mapsto> Some ''2''] [''a'', ''b'']
     = Inr [Some ''1'', Some ''2'']"
  by simp_all

lemma default_rule: "border_mid_cmd default_options = ''midrule''"
  by (simp add: default_options_def)

lemma hook_default:
  "wrap_row_all
     [RowWrapper (RowSpans Spans_all),
      RowBorderWrapper (RowSpans [Span (Some 1) None]) True False ''midrule'']
     0 [] = [bslash, bslash, newline]"
  "wrap_row (RowWrapper (RowSpans Spans_all)) 0 ''1 & 2''
     = ''1 & 2'' @ [newline, bslash, bslash, newline]"
  by (simp_all add: wrap_row_def Spans_all_def)

text \<open>
  C9. \<^verbatim>\<open>main\<close> always puts a \<^verbatim>\<open>RowWrapper\<close> over all rows in the pipeline. Its
  row-level hook appends a newline, the two backslashes and a newline to a non-empty row
  text, gives the two backslashes and a newline for the empty text, and never gives the
  empty text. In a pipeline \<^verbatim>\<open>main\<close> has built, the row-level pass of \<^verbatim>\<open>print_row\<close> is this
  hook, with before its result either nothing or the rule of the border modifier, since
  no modifier of the registry changes the text of a row. So every row \<^verbatim>\<open>print_row\<close>
  prints is the text of the row template, terminated by the hook, and is not empty; with
  the default template a row whose cells all quote to the empty text is printed as the
  two backslashes and a newline, after the rule where the border modifier covers the row.
\<close>

theorem RowWrapper_row_hook:
  "wrap_row (RowWrapper (RowSpans Spans_all)) (int row) v =
     (if v \<noteq> [] then v @ [newline, bslash, bslash, newline] else [bslash, bslash, newline])
   \<and> wrap_row (RowWrapper (RowSpans Spans_all)) (int row) v \<noteq> []
   \<and> (build_wrappers opts = Inr ws \<longrightarrow>
        RowWrapper (RowSpans Spans_all) \<in> set ws
        \<and> (\<exists>rule. (rule = [] \<or> rule = bslash # border_mid_cmd opts @ [newline])
              \<and> wrap_row_all ws (int row) v
                  = rule @ (if v \<noteq> [] then v @ [newline, bslash, bslash, newline]
                            else [bslash, bslash, newline])))
   \<and> (build_wrappers opts = Inr ws \<and> print_row row d names ws tmpl = Inr out \<longrightarrow>
        out \<noteq> []
        \<and> (\<exists>cells vals v' rule.
              lookup_all d names = Inr cells
              \<and> tmpl vals (\<exists>c\<in>set cells. quote c \<noteq> []) = Inr v'
              \<and> (rule = [] \<or> rule = bslash # border_mid_cmd opts @ [newline])
              \<and> out = rule @ (if v' \<noteq> [] then v' @ [newline, bslash, bslash, newline]
                              else [bslash, bslash, newline])))
   \<and> (build_wrappers opts = Inr ws \<and> print_row row d names ws simple_row = Inr out
        \<and> lookup_all d names = Inr cells \<and> (\<forall>c\<in>set cells. quote c = []) \<longrightarrow>
        out = [bslash, bslash, newline]
        \<or> out = bslash # border_mid_cmd opts @ [newline, bslash, bslash, newline])"
proof -
  have hook: "wrap_row (RowWrapper (RowSpans Spans_all)) (int r) x =
     (if x \<noteq> [] then x @ [newline, bslash, bslash, newline] else [bslash, bslash, newline])"
    for r x
    by (simp add: wrap_row_def Spans_all_def)
  have pass: "\<exists>rule. (rule = [] \<or> rule = bslash # border_mid_cmd opts @ [newline])
              \<and> wrap_row_all ws (int r) x
                  = rule @ (if x \<noteq> [] then x @ [newline, bslash, bslash, newline]
                            else [bslash, bslash, newline])"
    if "build_wrappers opts = Inr ws" for r x
    using build_wrappers_row_text [OF that, of "int r" x] unfolding hook .
  have row: "\<exists>cells vals v' rule.
              lookup_all d names = Inr cells
              \<and> tmpl vals (\<exists>c\<in>set cells. quote c \<noteq> []) = Inr v'
              \<and> (rule = [] \<or> rule = bslash # border_mid_cmd opts @ [newline])
              \<and> out = rule @ (if v' \<noteq> [] then v' @ [newline, bslash, bslash, newline]
                              else [bslash, bslash, newline])"
    if b: "build_wrappers opts = Inr ws" and p: "print_row row d names ws tmpl = Inr out"
    for tmpl out
  proof -
    from print_row_text [OF p] obtain cells vals hv x where
      l: "lookup_all d names = Inr cells" and
      c: "row_cells (int row) 0 ws cells [] False = Inr (vals, hv)" and
      t: "tmpl vals hv = Inr x" and
      o: "out = wrap_row_all ws (int row) x"
      by blast
    from row_cells_flag [OF c] have hv: "hv = (\<exists>c\<in>set cells. quote c \<noteq> [])" by simp
    from pass [OF b, of row x] obtain rule where
      "rule = [] \<or> rule = bslash # border_mid_cmd opts @ [newline]"
      "wrap_row_all ws (int row) x
         = rule @ (if x \<noteq> [] then x @ [newline, bslash, bslash, newline]
                   else [bslash, bslash, newline])"
      by blast
    with l t o show ?thesis unfolding hv by blast
  qed
  show ?thesis
  proof (intro conjI impI)
    show "wrap_row (RowWrapper (RowSpans Spans_all)) (int row) v =
       (if v \<noteq> [] then v @ [newline, bslash, bslash, newline] else [bslash, bslash, newline])"
      by (rule hook)
    show "wrap_row (RowWrapper (RowSpans Spans_all)) (int row) v \<noteq> []"
      unfolding hook by simp
    show "RowWrapper (RowSpans Spans_all) \<in> set ws" if "build_wrappers opts = Inr ws"
      using that by (rule build_wrappers_set)
    show "\<exists>rule. (rule = [] \<or> rule = bslash # border_mid_cmd opts @ [newline])
              \<and> wrap_row_all ws (int row) v
                  = rule @ (if v \<noteq> [] then v @ [newline, bslash, bslash, newline]
                            else [bslash, bslash, newline])"
      if "build_wrappers opts = Inr ws"
      using that by (rule pass)
    show "out \<noteq> []"
      if "build_wrappers opts = Inr ws \<and> print_row row d names ws tmpl = Inr out"
      using row [of tmpl out] that by (auto split: if_splits)
    show "\<exists>cells vals v' rule.
              lookup_all d names = Inr cells
              \<and> tmpl vals (\<exists>c\<in>set cells. quote c \<noteq> []) = Inr v'
              \<and> (rule = [] \<or> rule = bslash # border_mid_cmd opts @ [newline])
              \<and> out = rule @ (if v' \<noteq> [] then v' @ [newline, bslash, bslash, newline]
                              else [bslash, bslash, newline])"
      if "build_wrappers opts = Inr ws \<and> print_row row d names ws tmpl = Inr out"
      using row [of tmpl out] that by simp
    show "out = [bslash, bslash, newline]
        \<or> out = bslash # border_mid_cmd opts @ [newline, bslash, bslash, newline]"
      if h: "build_wrappers opts = Inr ws \<and> print_row row d names ws simple_row = Inr out
        \<and> lookup_all d names = Inr cells \<and> (\<forall>c\<in>set cells. quote c = [])"
    proof -
      from row [of simple_row out] h obtain cells' vals x rule where
        l: "lookup_all d names = Inr cells'" and
        t: "simple_row vals (\<exists>c\<in>set cells'. quote c \<noteq> []) = Inr x" and
        r: "rule = [] \<or> rule = bslash # border_mid_cmd opts @ [newline]" and
        o: "out = rule @ (if x \<noteq> [] then x @ [newline, bslash, bslash, newline]
                              else [bslash, bslash, newline])"
        by blast
      from l h have "cells' = cells" by simp
      with h have "\<not> (\<exists>c\<in>set cells'. quote c \<noteq> [])" by simp
      with t have "x = []" by (simp add: simple_row_def)
      with o r show ?thesis by auto
    qed
  qed
qed

text \<open>
  With the default options: the first row of a table, a second row whose two cells are
  empty, which has the rule before its terminator, and the hook on the empty text.
\<close>

theorem RowWrapper_row_hook_witness:
  "build_wrappers default_options
     = Inr [RowWrapper (RowSpans Spans_all),
            RowBorderWrapper (RowSpans [Span (Some 1) None]) True False ''midrule'']
   \<and> print_row 0 [''a'' \<mapsto> Some ''1'', ''b'' \<mapsto> Some ''2''] [''a'', ''b'']
       [RowWrapper (RowSpans Spans_all),
        RowBorderWrapper (RowSpans [Span (Some 1) None]) True False ''midrule'']
       simple_row
     = Inr (''1 & 2'' @ [newline, bslash, bslash, newline])
   \<and> print_row (Suc 0) [''a'' \<mapsto> Some [], ''b'' \<mapsto> None] [''a'', ''b'']
       [RowWrapper (RowSpans Spans_all),
        RowBorderWrapper (RowSpans [Span (Some 1) None]) True False ''midrule'']
       simple_row
     = Inr (bslash # ''midrule'' @ [newline, bslash, bslash, newline])
   \<and> quote (Some []) = [] \<and> quote None = []
   \<and> wrap_row_all
       [RowWrapper (RowSpans Spans_all),
        RowBorderWrapper (RowSpans [Span (Some 1) None]) True False ''midrule'']
       (int 0) [] = [bslash, bslash, newline]
   \<and> wrap_row (RowWrapper (RowSpans Spans_all)) (int 0) ''1 & 2''
       = ''1 & 2'' @ [newline, bslash, bslash, newline]"
  using RowWrapper_row_hook [where row = 0 and v = "''1 & 2''" and opts = default_options
      and ws = "[RowWrapper (RowSpans Spans_all),
                 RowBorderWrapper (RowSpans [Span (Some 1) None]) True False ''midrule'']"
      and d = "[''a'' \<mapsto> Some ''1'', ''b'' \<mapsto> Some ''2'']" and names = "[''a'', ''b'']"
      and tmpl = simple_row and out = "''1 & 2'' @ [newline, bslash, bslash, newline]"
      and cells = "[Some ''1'', Some ''2'']"]
    RowWrapper_row_hook [where row = "Suc 0" and v = "[]" and opts = default_options
      and ws = "[RowWrapper (RowSpans Spans_all),
                 RowBorderWrapper (RowSpans [Span (Some 1) None]) True False ''midrule'']"
      and d = "[''a'' \<mapsto> Some [], ''b'' \<mapsto> None]" and names = "[''a'', ''b'']"
      and tmpl = simple_row
      and out = "bslash # ''midrule'' @ [newline, bslash, bslash, newline]"
      and cells = "[Some [], None]"]
  by (simp add: build_default row_default_0 row_default_empty quote_empty_cells quote_cells
        lookup_cells default_rule hook_default del: lookup_all.simps wrap_row_all.simps)

section \<open>Configuration errors\<close>

lemma str_split_max_none: "sep \<notin> set s \<Longrightarrow> str_split_max n sep s = [s]"
proof (induction s)
  case Nil
  then show ?case by (cases n) simp_all
next
  case (Cons c cs)
  then show ?case by (cases n) auto
qed

lemma str_split_max_first:
  "sep \<notin> set a \<Longrightarrow> str_split_max (Suc n) sep (a @ sep # b) = a # str_split_max n sep b"
  by (induction a) auto

lemma split_two:
  assumes "CHR '':'' \<notin> set sp" "CHR '':'' \<notin> set key"
  shows "str_split_max 2 (CHR '':'') (sp @ CHR '':'' # key) = [sp, key]"
  using assms by (simp add: numeral_2_eq_2 str_split_max_first str_split_max_none)

lemma split_three:
  assumes "CHR '':'' \<notin> set sp" "CHR '':'' \<notin> set key"
  shows "str_split_max 2 (CHR '':'') (sp @ CHR '':'' # key @ CHR '':'' # args) = [sp, key, args]"
  using assms by (simp add: numeral_2_eq_2 str_split_max_first)

lemma parse_modifiers_fails:
  "m \<in> set ms \<Longrightarrow> parse_modifier m cls = Inl e \<Longrightarrow> \<exists>e'. parse_modifiers ms cls = Inl e'"
proof (induction ms)
  case Nil
  then show ?case by simp
next
  case (Cons x xs)
  then show ?case by (cases "parse_modifier x cls") (auto split: sum.splits)
qed

lemma build_wrappers_fails:
  assumes "(\<exists>e. parse_modifiers (row_modifiers opts) RowSpans = Inl e)
           \<or> (\<exists>e. parse_modifiers (col_modifiers opts) ColSpans = Inl e)"
  shows "\<exists>e. build_wrappers opts = Inl e"
  using assms unfolding build_wrappers_def
  by (auto split: sum.splits option.splits)

lemma main_aborts:
  assumes "build_wrappers opts = Inl e"
  shows "\<exists>e'. main opts path = ([], Some e')"
  using assms unfolding main_def
  by (auto split: sum.splits option.splits simp: Let_def)

text \<open>
  C8. A modifier specification with an unknown registry key raises \<^verbatim>\<open>KeyError\<close>, one
  whose span text does not parse raises the parser's exception, and \<open>bold\<close> or \<open>italic\<close>
  with an argument raises \<^verbatim>\<open>AssertionError\<close>; a specification of the options that
  raises ends the run with nothing written and exit status 1. The empty span text is not
  among the errors: it parses to the empty span set.
\<close>

theorem configuration_errors_abort:
  "(CHR '':'' \<notin> set sp \<and> CHR '':'' \<notin> set key \<and> Spans_parse sp = Inr sps
      \<and> map_of MODIFIERS key = None \<longrightarrow>
      parse_modifier (sp @ '':'' @ key) cls = Inl KeyError
      \<and> parse_modifier (sp @ '':'' @ key @ '':'' @ args) cls = Inl KeyError)
   \<and> (CHR '':'' \<notin> set sp \<and> CHR '':'' \<notin> set key \<and> Spans_parse sp = Inl e \<longrightarrow>
      parse_modifier (sp @ '':'' @ key) cls = Inl e
      \<and> parse_modifier (sp @ '':'' @ key @ '':'' @ args) cls = Inl e)
   \<and> (CHR '':'' \<notin> set sp \<and> Spans_parse sp = Inr sps \<longrightarrow>
      parse_modifier (sp @ '':bold:'' @ args) cls = Inl AssertionError
      \<and> parse_modifier (sp @ '':italic:'' @ args) cls = Inl AssertionError)
   \<and> ((m \<in> set (row_modifiers opts) \<and> parse_modifier m RowSpans = Inl e)
        \<or> (m \<in> set (col_modifiers opts) \<and> parse_modifier m ColSpans = Inl e) \<longrightarrow>
      fst (main opts path) = [] \<and> exit_status (main opts path) = 1)
   \<and> Spans_parse [] = Inr []
   \<and> parse_modifier '':bold'' cls = Inr (Bold (cls []) (Some ''bfseries'') False)"
proof (intro conjI impI)
  assume a: "CHR '':'' \<notin> set sp \<and> CHR '':'' \<notin> set key \<and> Spans_parse sp = Inr sps
      \<and> map_of MODIFIERS key = None"
  then show "parse_modifier (sp @ '':'' @ key) cls = Inl KeyError"
    by (simp add: parse_modifier_def split_two)
  from a show "parse_modifier (sp @ '':'' @ key @ '':'' @ args) cls = Inl KeyError"
    by (simp add: parse_modifier_def split_three)
next
  assume a: "CHR '':'' \<notin> set sp \<and> CHR '':'' \<notin> set key \<and> Spans_parse sp = Inl e"
  then show "parse_modifier (sp @ '':'' @ key) cls = Inl e"
    by (simp add: parse_modifier_def split_two)
  from a show "parse_modifier (sp @ '':'' @ key @ '':'' @ args) cls = Inl e"
    by (simp add: parse_modifier_def split_three)
next
  assume a: "CHR '':'' \<notin> set sp \<and> Spans_parse sp = Inr sps"
  then have "str_split_max 2 (CHR '':'') (sp @ CHR '':'' # ''bold'' @ CHR '':'' # args) = [sp, ''bold'', args]"
    by (intro split_three) simp_all
  with a show "parse_modifier (sp @ '':bold:'' @ args) cls = Inl AssertionError"
    by (simp add: parse_modifier_def MODIFIERS_def Bold_parse_def)
  from a have "str_split_max 2 (CHR '':'') (sp @ CHR '':'' # ''italic'' @ CHR '':'' # args) = [sp, ''italic'', args]"
    by (intro split_three) simp_all
  with a show "parse_modifier (sp @ '':italic:'' @ args) cls = Inl AssertionError"
    by (simp add: parse_modifier_def MODIFIERS_def Italic_parse_def)
next
  assume a: "(m \<in> set (row_modifiers opts) \<and> parse_modifier m RowSpans = Inl e)
        \<or> (m \<in> set (col_modifiers opts) \<and> parse_modifier m ColSpans = Inl e)"
  then have "(\<exists>e. parse_modifiers (row_modifiers opts) RowSpans = Inl e)
           \<or> (\<exists>e. parse_modifiers (col_modifiers opts) ColSpans = Inl e)"
    using parse_modifiers_fails by blast
  then obtain e1 where "build_wrappers opts = Inl e1"
    using build_wrappers_fails by blast
  then obtain e2 where m: "main opts path = ([], Some e2)"
    using main_aborts by blast
  then show "fst (main opts path) = []" by simp
  from m show "exit_status (main opts path) = 1" by (simp add: exit_status_def)
next
  show "Spans_parse [] = Inr []" by (simp add: Spans_parse_def)
  show "parse_modifier '':bold'' cls = Inr (Bold (cls []) (Some ''bfseries'') False)"
    by (simp add: eval_parse)
qed

lemma parse_examples:
  "parse_modifier ''0:nokey'' ColSpans = Inl KeyError"
  "parse_modifier ''x:bold'' ColSpans = Inl ValueError"
  "parse_modifier ''0:bold:a'' ColSpans = Inl AssertionError"
  "Spans_parse ''0'' = Inr [Span (Some 0) (Some 1)]"
  "Spans_parse ''x'' = Inl ValueError"
  "map_of MODIFIERS ''nokey'' = None"
  by (simp_all add: eval_parse eval_str)

text \<open>
  An unknown key, a span text that is not a number, and \<open>bold\<close> and \<open>italic\<close> with an
  argument.
\<close>

theorem configuration_errors_abort_witness:
  "parse_modifier ''0:nokey'' ColSpans = Inl KeyError
   \<and> parse_modifier ''0:nokey:a'' ColSpans = Inl KeyError
   \<and> parse_modifier ''x:bold'' ColSpans = Inl ValueError
   \<and> parse_modifier ''0:bold:a'' ColSpans = Inl AssertionError
   \<and> parse_modifier ''0:italic:a'' ColSpans = Inl AssertionError
   \<and> fst (main (default_options\<lparr>col_modifiers := [''0:nokey'']\<rparr>) [[''a''], [''x'']]) = []
   \<and> exit_status (main (default_options\<lparr>col_modifiers := [''0:nokey'']\<rparr>) [[''a''], [''x'']]) = 1"
  using configuration_errors_abort [where sp = "''0''" and key = "''nokey''"
      and sps = "[Span (Some 0) (Some 1)]" and cls = ColSpans and args = "''a''"
      and m = "''0:nokey''" and e = KeyError
      and opts = "default_options\<lparr>col_modifiers := [''0:nokey'']\<rparr>"
      and path = "[[''a''], [''x'']]"]
    configuration_errors_abort [where sp = "''x''" and key = "''bold''" and e = ValueError
      and cls = ColSpans and m = "[]"
      and opts = default_options]
  by (simp add: parse_examples)

lemma parse_empty_span:
  "parse_modifier '':bold'' ColSpans = Inr (Bold (ColSpans []) (Some ''bfseries'') False)"
  by (simp add: eval_parse)

lemma build_empty_span:
  "build_wrappers (default_options\<lparr>col_modifiers := ['':bold'']\<rparr>)
     = Inr [Bold (ColSpans []) (Some ''bfseries'') False,
            RowWrapper (RowSpans Spans_all),
            RowBorderWrapper (RowSpans [Span (Some 1) None]) True False ''midrule'']"
  by (simp add: build_wrappers_def default_options_def parse_empty_span sort_wrappers_def)

lemma table_empty_span:
  "print_table [[''a''], [''x'']] Spans_all Spans_all 0 True []
     [Bold (ColSpans []) (Some ''bfseries'') False,
      RowWrapper (RowSpans Spans_all),
      RowBorderWrapper (RowSpans [Span (Some 1) None]) True False ''midrule'']
     simple_row
   = (''x'' @ [newline, bslash, bslash, newline], None)"
proof -
  have f1: "Spans_filter Spans_all [''a''] = [''a'']"
    by (simp add: Spans_filter_def Spans_all_def)
  have f2: "Spans_filter Spans_all [x] = [x]" for x :: row_dict
    by (simp add: Spans_filter_def Spans_all_def)
  have q: "quote (Some ''x'') = ''x''"
    by (simp add: quote_def eval_str)
  have r: "print_row 0 (dict_of_row [''a''] [''x'']) [''a'']
     [Bold (ColSpans []) (Some ''bfseries'') False,
      RowWrapper (RowSpans Spans_all),
      RowBorderWrapper (RowSpans [Span (Some 1) None]) True False ''midrule'']
     simple_row = Inr (''x'' @ [newline, bslash, bslash, newline])"
    by (simp add: print_row_def dict_of_row_def wrap_def wrap_row_def Spans_all_def
          simple_row_def q)
  show ?thesis
    unfolding print_table_def
    by (simp add: f1 f2 DictReader_rows_def r)
qed

text \<open>
  With the column modifier \<open>:bold\<close>, whose span text is empty, the run writes its row
  and the closing rule and ends with exit status 0.
\<close>

theorem empty_span_counterexample:
  "main (default_options\<lparr>col_modifiers := ['':bold'']\<rparr>) [[''a''], [''x'']]
     = (''x'' @ [newline, bslash, bslash, newline] @ bslash # ''midrule'' @ [newline], None)
   \<and> exit_status (main (default_options\<lparr>col_modifiers := ['':bold'']\<rparr>) [[''a''], [''x'']]) = 0"
  unfolding main_def build_empty_span exit_status_def
  by (simp add: default_options_def table_empty_span)

section \<open>The order of the pipeline\<close>

lemma wrap_all_append:
  "wrap_all (xs @ ys) c v = bind_err (wrap_all xs c v) (wrap_all ys c)"
  by (induction xs arbitrary: v) (auto simp: bind_err_def split: sum.splits)

lemma wrap_all_Cons:
  "wrap_all (w # ws) c v = bind_err (wrap w c v) (wrap_all ws c)"
  by (simp add: bind_err_def)

lemma sorted_before:
  assumes s: "sorted_wrt (\<lambda>a b. priority b \<le> priority a) ws"
    and w1: "w1 \<in> set ws" and w2: "w2 \<in> set ws" and p: "priority w2 < priority w1"
  shows "\<exists>as bs cs. ws = as @ w1 # bs @ w2 # cs"
proof -
  from w2 obtain xs cs where ws: "ws = xs @ w2 # cs"
    by (auto simp: in_set_conv_decomp)
  have "w1 \<notin> set cs"
  proof
    assume "w1 \<in> set cs"
    with s ws have "priority w1 \<le> priority w2"
      by (auto simp: sorted_wrt_append)
    with p show False by simp
  qed
  moreover have "w1 \<noteq> w2" using p by auto
  ultimately have "w1 \<in> set xs" using w1 ws by auto
  then obtain as bs where "xs = as @ w1 # bs"
    by (auto simp: in_set_conv_decomp)
  with ws show ?thesis by auto
qed

lemma build_wrappers_sorted:
  assumes "build_wrappers opts = Inr ws"
  shows "sorted_wrt (\<lambda>a b. priority b \<le> priority a) ws"
  using assms sorted_sort_wrappers
  by (auto simp: build_wrappers_def split: sum.splits option.splits)

lemma row_cells_values:
  "row_cells row col ws cells vals hv = Inr (vals', hv') \<Longrightarrow>
   \<exists>vs. vals' = vals @ vs \<and> length vs = length cells
      \<and> (\<forall>j<length cells.
            wrap_all ws (Some row, Some (int (col + j))) (quote (cells ! j)) = Inr (vs ! j))"
proof (induction cells arbitrary: col vals hv)
  case Nil
  then show ?case by simp
next
  case (Cons c cs)
  from Cons.prems obtain t hv1 where
    t: "wrap_all ws (Some row, Some (int col)) (quote c) = Inr t" and
    rest: "row_cells row (Suc col) ws cs (vals @ [t]) hv1 = Inr (vals', hv')"
    by (auto simp: Let_def split: sum.splits)
  from Cons.IH [OF rest] obtain vs where
    vs: "vals' = (vals @ [t]) @ vs" "length vs = length cs"
      "\<forall>j<length cs. wrap_all ws (Some row, Some (int (Suc col + j))) (quote (cs ! j)) = Inr (vs ! j)"
    by blast
  have "\<forall>j<length (c # cs).
          wrap_all ws (Some row, Some (int (col + j))) (quote ((c # cs) ! j)) = Inr ((t # vs) ! j)"
  proof (intro allI impI)
    fix j assume j: "j < length (c # cs)"
    show "wrap_all ws (Some row, Some (int (col + j))) (quote ((c # cs) ! j)) = Inr ((t # vs) ! j)"
    proof (cases j)
      case 0
      then show ?thesis using t by simp
    next
      case (Suc k)
      with j vs(3) show ?thesis by simp
    qed
  qed
  with vs show ?case by (intro exI [of _ "t # vs"]) simp
qed

lemma print_rows_texts:
  "print_rows row ds ns ws tmpl out0 = (out, err) \<Longrightarrow>
   \<exists>texts. length texts \<le> length ds \<and> out = out0 @ concat texts
      \<and> (err = None \<longrightarrow> length texts = length ds)
      \<and> (\<forall>i<length texts. print_row (row + i) (ds ! i) ns ws tmpl = Inr (texts ! i))"
proof (induction ds arbitrary: row out0)
  case Nil
  then show ?case by simp
next
  case (Cons d ds)
  show ?case
  proof (cases "print_row row d ns ws tmpl")
    case (Inl e)
    with Cons.prems have "out = out0" "err = Some e" by simp_all
    then show ?thesis by (intro exI [of _ "[]"]) simp
  next
    case (Inr tx0)
    with Cons.prems have "print_rows (Suc row) ds ns ws tmpl (out0 @ tx0) = (out, err)" by simp
    from Cons.IH [OF this] obtain texts where
      tx: "length texts \<le> length ds" "out = (out0 @ tx0) @ concat texts"
        "err = None \<longrightarrow> length texts = length ds"
        "\<forall>i<length texts. print_row (Suc row + i) (ds ! i) ns ws tmpl = Inr (texts ! i)"
      by blast
    have "\<forall>i<length (tx0 # texts).
            print_row (row + i) ((d # ds) ! i) ns ws tmpl = Inr ((tx0 # texts) ! i)"
    proof (intro allI impI)
      fix i assume i: "i < length (tx0 # texts)"
      show "print_row (row + i) ((d # ds) ! i) ns ws tmpl = Inr ((tx0 # texts) ! i)"
      proof (cases i)
        case 0
        then show ?thesis using Inr by simp
      next
        case (Suc k)
        with i tx(4) show ?thesis by simp
      qed
    qed
    with tx show ?thesis by (intro exI [of _ "tx0 # texts"]) simp
  qed
qed

lemma print_rows_cells:
  assumes "print_rows row ds ns ws tmpl out0 = (out, err)"
  shows "\<exists>texts. out = out0 @ concat texts \<and> length texts \<le> length ds
      \<and> (err = None \<longrightarrow> length texts = length ds)
      \<and> (\<forall>i<length texts. \<exists>cells vals v.
            lookup_all (ds ! i) ns = Inr cells \<and> length vals = length cells
            \<and> (\<forall>j<length cells.
                  wrap_all ws (Some (int (row + i)), Some (int j)) (quote (cells ! j))
                    = Inr (vals ! j))
            \<and> tmpl vals (\<exists>c\<in>set cells. quote c \<noteq> []) = Inr v
            \<and> texts ! i = wrap_row_all ws (int (row + i)) v)"
proof -
  from print_rows_texts [OF assms] obtain texts where
    tx: "length texts \<le> length ds" "out = out0 @ concat texts"
      "err = None \<longrightarrow> length texts = length ds"
      "\<forall>i<length texts. print_row (row + i) (ds ! i) ns ws tmpl = Inr (texts ! i)"
    by blast
  have "\<exists>cells vals v.
            lookup_all (ds ! i) ns = Inr cells \<and> length vals = length cells
            \<and> (\<forall>j<length cells.
                  wrap_all ws (Some (int (row + i)), Some (int j)) (quote (cells ! j))
                    = Inr (vals ! j))
            \<and> tmpl vals (\<exists>c\<in>set cells. quote c \<noteq> []) = Inr v
            \<and> texts ! i = wrap_row_all ws (int (row + i)) v"
    if i: "i < length texts" for i
  proof -
    from tx(4) i have "print_row (row + i) (ds ! i) ns ws tmpl = Inr (texts ! i)" by simp
    from print_row_text [OF this] obtain cells vals hv v where
      l: "lookup_all (ds ! i) ns = Inr cells" and
      c: "row_cells (int (row + i)) 0 ws cells [] False = Inr (vals, hv)" and
      t: "tmpl vals hv = Inr v" and
      o: "texts ! i = wrap_row_all ws (int (row + i)) v"
      by blast
    from row_cells_flag [OF c] have hv: "hv = (\<exists>c\<in>set cells. quote c \<noteq> [])" by simp
    from row_cells_values [OF c] have
      vs: "length vals = length cells"
        "\<forall>j<length cells.
           wrap_all ws (Some (int (row + i)), Some (int j)) (quote (cells ! j)) = Inr (vals ! j)"
      by auto
    from l vs t o show ?thesis unfolding hv by blast
  qed
  with tx show ?thesis by blast
qed

lemma print_table_rows:
  assumes "print_table fh rs cs st sh skip ws tmpl = (out, err)"
  shows "(out = [] \<and> err \<noteq> None) \<or> (\<exists>ns ds. print_rows 0 ds ns ws tmpl [] = (out, err))"
proof (cases "int (length fh) < st")
  case True
  with assms show ?thesis by (auto simp: print_table_def)
next
  case False
  show ?thesis
  proof (cases "drop (nat st) fh")
    case Nil
    with False assms show ?thesis by (auto simp: print_table_def)
  next
    case (Cons fieldnames body)
    with False assms have "\<exists>ns ds. print_rows 0 ds ns ws tmpl [] = (out, err)"
      unfolding print_table_def Let_def by (simp only: if_False list.case) blast
    then show ?thesis ..
  qed
qed

lemma main_rows:
  assumes b: "build_wrappers opts = Inr ws" and m: "main opts path = (out, err)"
  shows "(out = [] \<and> err \<noteq> None)
     \<or> (\<exists>ns ds tmpl tout.
          (case template opts of None \<Rightarrow> Inr simple_row | Some t \<Rightarrow> t) = Inr tmpl
          \<and> print_rows 0 ds ns ws tmpl [] = (tout, err)
          \<and> (out = tout \<or> (err = None \<and> out = tout @ bslash # ''midrule'' @ [newline])))"
proof (cases "out = [] \<and> err \<noteq> None")
  case True
  then show ?thesis ..
next
  case False
  with m b obtain rs cs skip tmpl tout terr where
    tm: "(case template opts of None \<Rightarrow> Inr simple_row | Some t \<Rightarrow> t) = Inr tmpl" and
    pt: "print_table path rs cs (start_at opts) (skip_headers opts) skip ws tmpl = (tout, terr)" and
    o: "(terr \<noteq> None \<and> out = tout \<and> err = terr)
        \<or> (terr = None \<and> err = None
            \<and> (out = tout \<or> out = tout @ bslash # ''midrule'' @ [newline]))"
    by (auto simp: main_def Let_def split: sum.splits option.splits prod.splits if_splits)
  from o have e: "err = terr" by auto
  from print_table_rows [OF pt] o False obtain ns ds where
    "print_rows 0 ds ns ws tmpl [] = (tout, terr)"
    by auto
  with tm o e show ?thesis by blast
qed

text \<open>
  C5. The pipeline \<^verbatim>\<open>main\<close> builds is sorted by descending priority. A run of \<^verbatim>\<open>main\<close>
  with this pipeline either ends with an exception before anything is written, or its
  output is the output of the loop over the rows, \<^verbatim>\<open>print_rows\<close>, run with this very
  pipeline, followed by the closing rule if there is one. The loop prints a text for each
  row up to the first that raises: the text of row \<open>i\<close> is the row template on the
  values of its cells, passed through the row-level hooks of the pipeline, where the
  value of the cell in column \<open>j\<close> is the quoted cell passed through the whole pipeline,
  \<^verbatim>\<open>wrap_all\<close>, in the order of the list. In a sorted pipeline, of two modifiers that
  cover a cell the one of higher priority stands first: its \<^verbatim>\<open>apply\<close> runs on the text
  the modifiers before it produce, and its result goes through the modifiers between the
  two into the \<^verbatim>\<open>apply\<close> of the one of lower priority. So \<open>round\<close> and \<open>percent\<close>, of
  priority 200, run before \<open>fg\<close>, of priority 100, and \<open>bg\<close>, of priority 10.
\<close>

theorem pipeline_order:
  "(build_wrappers opts = Inr ws \<longrightarrow> sorted_wrt (\<lambda>a b. priority b \<le> priority a) ws)
   \<and> (build_wrappers opts = Inr ws \<and> main opts path = (out, err) \<longrightarrow>
        (out = [] \<and> err \<noteq> None)
        \<or> (\<exists>names ds tmpl tout.
              (case template opts of None \<Rightarrow> Inr simple_row | Some t \<Rightarrow> t) = Inr tmpl
              \<and> print_rows 0 ds names ws tmpl [] = (tout, err)
              \<and> (out = tout \<or> (err = None \<and> out = tout @ bslash # ''midrule'' @ [newline]))))
   \<and> (print_rows row ds names ws tmpl out0 = (rout, rerr) \<longrightarrow>
        (\<exists>texts.
           rout = out0 @ concat texts \<and> length texts \<le> length ds
           \<and> (rerr = None \<longrightarrow> length texts = length ds)
           \<and> (\<forall>i<length texts. \<exists>cells vals v.
                 lookup_all (ds ! i) names = Inr cells \<and> length vals = length cells
                 \<and> (\<forall>j<length cells.
                       wrap_all ws (Some (int (row + i)), Some (int j)) (quote (cells ! j))
                         = Inr (vals ! j))
                 \<and> tmpl vals (\<exists>c\<in>set cells. quote c \<noteq> []) = Inr v
                 \<and> texts ! i = wrap_row_all ws (int (row + i)) v)))
   \<and> (sorted_wrt (\<lambda>a b. priority b \<le> priority a) ws
        \<and> w1 \<in> set ws \<and> w2 \<in> set ws \<and> priority w2 < priority w1
        \<and> cell_in c (spans_of w1) \<and> cell_in c (spans_of w2) \<longrightarrow>
       (\<exists>as bs cs.
          ws = as @ w1 # bs @ w2 # cs
          \<and> wrap_all ws c v =
              bind_err (wrap_all as c v) (\<lambda>x.
                bind_err (apply_cell w1 x) (\<lambda>y.
                  bind_err (wrap_all bs c y) (\<lambda>z.
                    bind_err (apply_cell w2 z) (wrap_all cs c))))))
   \<and> priority (BackgroundColor sp a) < priority (TextColor sp' a')
   \<and> priority (TextColor sp' a') < priority (RoundNumbers sp1 n1 r1)
   \<and> priority (TextColor sp' a') < priority (Percent sp2 n2)
   \<and> priority (RoundNumbers sp1 n1 r1) = 200 \<and> priority (Percent sp2 n2) = 200
   \<and> priority (TextColor sp' a') = 100 \<and> priority (BackgroundColor sp a) = 10"
proof (intro conjI impI)
  show "sorted_wrt (\<lambda>a b. priority b \<le> priority a) ws" if "build_wrappers opts = Inr ws"
    using that by (rule build_wrappers_sorted)
  show "(out = [] \<and> err \<noteq> None)
        \<or> (\<exists>names ds tmpl tout.
              (case template opts of None \<Rightarrow> Inr simple_row | Some t \<Rightarrow> t) = Inr tmpl
              \<and> print_rows 0 ds names ws tmpl [] = (tout, err)
              \<and> (out = tout \<or> (err = None \<and> out = tout @ bslash # ''midrule'' @ [newline])))"
    if "build_wrappers opts = Inr ws \<and> main opts path = (out, err)"
    using that main_rows [of opts ws path out err] by simp
  show "\<exists>texts.
           rout = out0 @ concat texts \<and> length texts \<le> length ds
           \<and> (rerr = None \<longrightarrow> length texts = length ds)
           \<and> (\<forall>i<length texts. \<exists>cells vals v.
                 lookup_all (ds ! i) names = Inr cells \<and> length vals = length cells
                 \<and> (\<forall>j<length cells.
                       wrap_all ws (Some (int (row + i)), Some (int j)) (quote (cells ! j))
                         = Inr (vals ! j))
                 \<and> tmpl vals (\<exists>c\<in>set cells. quote c \<noteq> []) = Inr v
                 \<and> texts ! i = wrap_row_all ws (int (row + i)) v)"
    if "print_rows row ds names ws tmpl out0 = (rout, rerr)"
    using that by (rule print_rows_cells)
  show "\<exists>as bs cs.
          ws = as @ w1 # bs @ w2 # cs
          \<and> wrap_all ws c v =
              bind_err (wrap_all as c v) (\<lambda>x.
                bind_err (apply_cell w1 x) (\<lambda>y.
                  bind_err (wrap_all bs c y) (\<lambda>z.
                    bind_err (apply_cell w2 z) (wrap_all cs c))))"
    if h: "sorted_wrt (\<lambda>a b. priority b \<le> priority a) ws
        \<and> w1 \<in> set ws \<and> w2 \<in> set ws \<and> priority w2 < priority w1
        \<and> cell_in c (spans_of w1) \<and> cell_in c (spans_of w2)"
  proof -
    from h obtain as bs cs where ws: "ws = as @ w1 # bs @ w2 # cs"
      using sorted_before by blast
    have a1: "wrap w1 c = apply_cell w1" using h by (auto simp: wrap_def)
    have a2: "wrap w2 c = apply_cell w2" using h by (auto simp: wrap_def)
    have "wrap_all ws c v =
              bind_err (wrap_all as c v) (\<lambda>x.
                bind_err (apply_cell w1 x) (\<lambda>y.
                  bind_err (wrap_all bs c y) (\<lambda>z.
                    bind_err (apply_cell w2 z) (wrap_all cs c))))"
      unfolding ws wrap_all_append wrap_all_Cons a1 a2 ..
    with ws show ?thesis by blast
  qed
qed simp_all

lemma parse_three:
  "parse_modifier ''0:bg:red'' ColSpans
     = Inr (BackgroundColor (ColSpans [Span (Some 0) (Some 1)]) (Some ''red''))"
  "parse_modifier ''0:round:0'' ColSpans
     = Inr (RoundNumbers (ColSpans [Span (Some 0) (Some 1)]) 0 None)"
  "parse_modifier ''0:fg:blue'' ColSpans
     = Inr (TextColor (ColSpans [Span (Some 0) (Some 1)]) (Some ''blue''))"
  by (simp_all add: eval_parse eval_str)

lemma build_three:
  "build_wrappers (default_options\<lparr>col_modifiers := [''0:bg:red'', ''0:round:0'', ''0:fg:blue'']\<rparr>)
     = Inr [RoundNumbers (ColSpans [Span (Some 0) (Some 1)]) 0 None,
            TextColor (ColSpans [Span (Some 0) (Some 1)]) (Some ''blue''),
            BackgroundColor (ColSpans [Span (Some 0) (Some 1)]) (Some ''red''),
            RowWrapper (RowSpans Spans_all),
            RowBorderWrapper (RowSpans [Span (Some 1) None]) True False ''midrule'']"
  by (simp add: build_wrappers_def default_options_def parse_three sort_wrappers_def)

lemma round_0_example: "RoundNumbers_apply 0 None ''3.7'' = Inr ''4''"
  by (simp add: RoundNumbers_apply_def eval_str eval_re eval_dec)

lemma quote_37: "quote (Some ''3.7'') = ''3.7''"
  by (simp add: quote_def eval_str)

lemma cell_three:
  "wrap_all
     [RoundNumbers (ColSpans [Span (Some 0) (Some 1)]) 0 None,
      TextColor (ColSpans [Span (Some 0) (Some 1)]) (Some ''blue''),
      BackgroundColor (ColSpans [Span (Some 0) (Some 1)]) (Some ''red''),
      RowWrapper (RowSpans Spans_all),
      RowBorderWrapper (RowSpans [Span (Some 1) None]) True False ''midrule'']
     (Some 0, Some 0) ''3.7''
   = Inr (bslash # ''cellcolor{red}'' @ bslash # ''color{blue}{4}'')"
  by (simp add: wrap_def round_0_example Spans_all_def)

lemma row_three:
  "print_row 0 [''a'' \<mapsto> Some ''3.7''] [''a'']
     [RoundNumbers (ColSpans [Span (Some 0) (Some 1)]) 0 None,
      TextColor (ColSpans [Span (Some 0) (Some 1)]) (Some ''blue''),
      BackgroundColor (ColSpans [Span (Some 0) (Some 1)]) (Some ''red''),
      RowWrapper (RowSpans Spans_all),
      RowBorderWrapper (RowSpans [Span (Some 1) None]) True False ''midrule'']
     simple_row
   = Inr (bslash # ''cellcolor{red}'' @ bslash # ''color{blue}{4}''
          @ [newline, bslash, bslash, newline])"
  by (simp add: print_row_def wrap_def wrap_row_def Spans_all_def simple_row_def quote_37
        round_0_example)

lemma rows_three:
  "print_rows 0 [[''a'' \<mapsto> Some ''3.7'']] [''a'']
     [RoundNumbers (ColSpans [Span (Some 0) (Some 1)]) 0 None,
      TextColor (ColSpans [Span (Some 0) (Some 1)]) (Some ''blue''),
      BackgroundColor (ColSpans [Span (Some 0) (Some 1)]) (Some ''red''),
      RowWrapper (RowSpans Spans_all),
      RowBorderWrapper (RowSpans [Span (Some 1) None]) True False ''midrule'']
     simple_row []
   = (bslash # ''cellcolor{red}'' @ bslash # ''color{blue}{4}''
      @ [newline, bslash, bslash, newline], None)"
  by (simp add: row_three)

lemma table_three:
  "print_table [[''a''], [''3.7'']] Spans_all Spans_all 0 True []
     [RoundNumbers (ColSpans [Span (Some 0) (Some 1)]) 0 None,
      TextColor (ColSpans [Span (Some 0) (Some 1)]) (Some ''blue''),
      BackgroundColor (ColSpans [Span (Some 0) (Some 1)]) (Some ''red''),
      RowWrapper (RowSpans Spans_all),
      RowBorderWrapper (RowSpans [Span (Some 1) None]) True False ''midrule'']
     simple_row
   = (bslash # ''cellcolor{red}'' @ bslash # ''color{blue}{4}''
      @ [newline, bslash, bslash, newline], None)"
proof -
  have f1: "Spans_filter Spans_all [''a''] = [''a'']"
    by (simp add: Spans_filter_def Spans_all_def)
  have f2: "Spans_filter Spans_all [x] = [x]" for x :: row_dict
    by (simp add: Spans_filter_def Spans_all_def)
  have d: "DictReader_rows [''a''] [[''3.7'']] = [[''a'' \<mapsto> Some ''3.7'']]"
    by (simp add: DictReader_rows_def dict_of_row_def)
  show ?thesis
    unfolding print_table_def
    by (simp add: f1 f2 d row_three del: fun_upd_apply)
qed

lemma main_three:
  "main (default_options\<lparr>col_modifiers := [''0:bg:red'', ''0:round:0'', ''0:fg:blue'']\<rparr>)
     [[''a''], [''3.7'']]
   = (bslash # ''cellcolor{red}'' @ bslash # ''color{blue}{4}''
      @ [newline, bslash, bslash, newline] @ bslash # ''midrule'' @ [newline], None)"
  unfolding main_def build_three
  by (simp add: default_options_def table_three)

text \<open>
  The modifiers \<open>bg\<close>, \<open>round\<close> and \<open>fg\<close>, given in this order for column 0, and a
  table of one column with the cell \<open>3.7\<close>: the cell is rounded first, then coloured,
  then given its background, and the run prints this row and the closing rule.
\<close>

theorem pipeline_order_witness:
  "build_wrappers (default_options\<lparr>col_modifiers := [''0:bg:red'', ''0:round:0'', ''0:fg:blue'']\<rparr>)
     = Inr [RoundNumbers (ColSpans [Span (Some 0) (Some 1)]) 0 None,
            TextColor (ColSpans [Span (Some 0) (Some 1)]) (Some ''blue''),
            BackgroundColor (ColSpans [Span (Some 0) (Some 1)]) (Some ''red''),
            RowWrapper (RowSpans Spans_all),
            RowBorderWrapper (RowSpans [Span (Some 1) None]) True False ''midrule'']
   \<and> sorted_wrt (\<lambda>a b. priority b \<le> priority a)
        [RoundNumbers (ColSpans [Span (Some 0) (Some 1)]) 0 None,
         TextColor (ColSpans [Span (Some 0) (Some 1)]) (Some ''blue''),
         BackgroundColor (ColSpans [Span (Some 0) (Some 1)]) (Some ''red''),
         RowWrapper (RowSpans Spans_all),
         RowBorderWrapper (RowSpans [Span (Some 1) None]) True False ''midrule'']
   \<and> main (default_options\<lparr>col_modifiers := [''0:bg:red'', ''0:round:0'', ''0:fg:blue'']\<rparr>)
        [[''a''], [''3.7'']]
       = (bslash # ''cellcolor{red}'' @ bslash # ''color{blue}{4}''
          @ [newline, bslash, bslash, newline] @ bslash # ''midrule'' @ [newline], None)
   \<and> print_rows 0 [[''a'' \<mapsto> Some ''3.7'']] [''a'']
        [RoundNumbers (ColSpans [Span (Some 0) (Some 1)]) 0 None,
         TextColor (ColSpans [Span (Some 0) (Some 1)]) (Some ''blue''),
         BackgroundColor (ColSpans [Span (Some 0) (Some 1)]) (Some ''red''),
         RowWrapper (RowSpans Spans_all),
         RowBorderWrapper (RowSpans [Span (Some 1) None]) True False ''midrule'']
        simple_row []
       = (bslash # ''cellcolor{red}'' @ bslash # ''color{blue}{4}''
          @ [newline, bslash, bslash, newline], None)
   \<and> wrap_all
        [RoundNumbers (ColSpans [Span (Some 0) (Some 1)]) 0 None,
         TextColor (ColSpans [Span (Some 0) (Some 1)]) (Some ''blue''),
         BackgroundColor (ColSpans [Span (Some 0) (Some 1)]) (Some ''red''),
         RowWrapper (RowSpans Spans_all),
         RowBorderWrapper (RowSpans [Span (Some 1) None]) True False ''midrule'']
        (Some 0, Some 0) ''3.7''
       = Inr (bslash # ''cellcolor{red}'' @ bslash # ''color{blue}{4}'')"
  using pipeline_order [where opts = "default_options\<lparr>col_modifiers := [''0:bg:red'', ''0:round:0'', ''0:fg:blue'']\<rparr>"
      and ws = "[RoundNumbers (ColSpans [Span (Some 0) (Some 1)]) 0 None,
         TextColor (ColSpans [Span (Some 0) (Some 1)]) (Some ''blue''),
         BackgroundColor (ColSpans [Span (Some 0) (Some 1)]) (Some ''red''),
         RowWrapper (RowSpans Spans_all),
         RowBorderWrapper (RowSpans [Span (Some 1) None]) True False ''midrule'']"
      and path = "[[''a''], [''3.7'']]"
      and out = "bslash # ''cellcolor{red}'' @ bslash # ''color{blue}{4}''
          @ [newline, bslash, bslash, newline] @ bslash # ''midrule'' @ [newline]"
      and err = None
      and rout = "bslash # ''cellcolor{red}'' @ bslash # ''color{blue}{4}''
          @ [newline, bslash, bslash, newline]"
      and rerr = None
      and row = 0 and ds = "[[''a'' \<mapsto> Some ''3.7'']]" and names = "[''a'']"
      and tmpl = simple_row and ?out0.0 = "[]"
      and ?w1.0 = "RoundNumbers (ColSpans [Span (Some 0) (Some 1)]) 0 None"
      and ?w2.0 = "BackgroundColor (ColSpans [Span (Some 0) (Some 1)]) (Some ''red'')"
      and c = "(Some 0, Some 0)" and v = "''3.7''"]
  by (simp add: build_three main_three rows_three cell_three
        del: print_rows.simps wrap_all.simps)

section \<open>Rounding with negative decimals\<close>

lemma ndigits_pos: "0 < ndigits c"
  by (simp add: ndigits_def str_nat_nonempty)

lemma ndigits_le_iff: "0 < n \<Longrightarrow> ndigits c \<le> n \<longleftrightarrow> c < 10 ^ n"
proof (induction c arbitrary: n rule: str_nat.induct)
  case (1 c)
  show ?case
  proof (cases "c < 10")
    case True
    have "(10::nat) ^ 1 \<le> 10 ^ n" using 1(2) by (intro power_increasing) simp_all
    with True have "c < 10 ^ n" by simp
    moreover have "ndigits c = 1" using True by (simp add: ndigits_def str_nat.simps)
    ultimately show ?thesis using 1(2) by simp
  next
    case False
    then have nd: "ndigits c = Suc (ndigits (c div 10))"
      unfolding ndigits_def by (subst str_nat.simps) simp
    show ?thesis
    proof (cases n)
      case 0
      with 1(2) show ?thesis by simp
    next
      case (Suc k)
      show ?thesis
      proof (cases "k = 0")
        case True
        with Suc False nd ndigits_pos [of "c div 10"] show ?thesis by simp
      next
        case k: False
        then have "ndigits (c div 10) \<le> k \<longleftrightarrow> c div 10 < 10 ^ k"
          using 1(1) [OF False, of k] by simp
        moreover have "c div 10 < 10 ^ k \<longleftrightarrow> c < 10 ^ Suc k"
          by (simp add: div_less_iff_less_mult mult.commute)
        ultimately show ?thesis using nd Suc by simp
      qed
    qed
  qed
qed

lemma ndigits_mono: "a \<le> b \<Longrightarrow> ndigits a \<le> ndigits b"
proof -
  assume ab: "a \<le> b"
  have "b < 10 ^ ndigits b"
    using ndigits_le_iff [where n = "ndigits b" and c = b] ndigits_pos [of b] by simp
  with ab have "a < 10 ^ ndigits b" by simp
  then show ?thesis
    using ndigits_le_iff [where n = "ndigits b" and c = a] ndigits_pos [of b] by simp
qed

lemma ndigits_power10: "ndigits (10 ^ k) = Suc k"
proof (induction k)
  case 0
  show ?case by (simp add: ndigits_def str_nat.simps)
next
  case (Suc k)
  have "\<not> (10::nat) ^ Suc k < 10" by simp
  then have "ndigits (10 ^ Suc k) = Suc (ndigits (10 ^ Suc k div 10))"
    unfolding ndigits_def by (subst str_nat.simps) simp
  with Suc show ?case by simp
qed

lemma round_coeff_nearest: "round_coeff ROUND_HALF_EVEN c j = nearest_even c (10 ^ j)"
  by (auto simp: round_coeff_def nearest_even_def Let_def)

lemma nearest_even_scale:
  assumes "0 < t"
  shows "nearest_even (n * t) (m * t) = nearest_even n m"
proof -
  have d: "(n * t) div (m * t) = n div m" using assms by simp
  have r: "(n * t) mod (m * t) = (n mod m) * t" by (simp add: mult_mod_left mult.commute)
  have c1: "2 * ((n mod m) * t) < m * t \<longleftrightarrow> 2 * (n mod m) < m"
    using assms by (metis mult.assoc mult_less_cancel2)
  have c2: "m * t < 2 * ((n mod m) * t) \<longleftrightarrow> m < 2 * (n mod m)"
    using assms by (metis mult.assoc mult_less_cancel2)
  show ?thesis
    unfolding nearest_even_def Let_def d r c1 c2 ..
qed

lemma nearest_even_one: "nearest_even n (Suc 0) = n"
  by (simp add: nearest_even_def)

lemma nearest_even_small: "2 * n < m \<Longrightarrow> nearest_even n m = 0"
  by (simp add: nearest_even_def Let_def)

lemma nearest_even_near:
  assumes "0 < m"
  shows "2 * \<bar>int (nearest_even n m) * int m - int n\<bar> \<le> int m"
proof -
  define q where "q = n div m"
  define r where "r = n mod m"
  have n: "int n = int q * int m + int r"
    unfolding q_def r_def by (metis div_mult_mod_eq of_nat_add of_nat_mult)
  have rm: "r < m" unfolding r_def using assms by simp
  show ?thesis
    unfolding nearest_even_def Let_def q_def [symmetric] r_def [symmetric] n
    using rm by (auto simp: algebra_simps)
qed

lemma nearest_even_le: "nearest_even n m \<le> n div m + 1"
  by (simp add: nearest_even_def Let_def)


lemma ctx_bounds: "Etiny = - 1000026" "Etop = 999972" "Emax = 999999" "prec = 28"
  by (simp_all add: Etiny_def Etop_def Emax_def Emin_def prec_def)

lemma fix_ctx_id:
  assumes "c \<noteq> 0" "ndigits c \<le> 28" "Etiny \<le> e" "e \<le> 0"
  shows "fix_ctx (Decimal s c e) = Inr (Decimal s c e)"
  using assms by (simp add: fix_ctx_def Let_def ctx_bounds)

lemma fix_ctx_zero:
  assumes "Etiny \<le> e" "e \<le> 0"
  shows "fix_ctx (Decimal s 0 e) = Inr (Decimal s 0 e)"
  using assms by (simp add: fix_ctx_def ctx_bounds)

lemma strip_zeros_spec:
  "strip_zeros c e ideal = (c', e') \<Longrightarrow>
   \<exists>t. c = c' * 10 ^ t \<and> e' = e + int t \<and> (e \<le> ideal \<longrightarrow> e' \<le> ideal)
       \<and> (e' < ideal \<longrightarrow> c' mod 10 \<noteq> 0)"
proof (induction c e ideal rule: strip_zeros.induct)
  case (1 c e ideal)
  show ?case
  proof (cases "e < ideal \<and> c mod 10 = 0")
    case True
    with 1(2) have "strip_zeros (c div 10) (e + 1) ideal = (c', e')"
      by (subst (asm) strip_zeros.simps) simp
    from 1(1) [OF True this] obtain t where
      t: "c div 10 = c' * 10 ^ t" "e' = e + 1 + int t" "e + 1 \<le> ideal \<longrightarrow> e' \<le> ideal"
        "e' < ideal \<longrightarrow> c' mod 10 \<noteq> 0"
      by blast
    from True have "c = (c div 10) * 10" by presburger
    with t(1) have "c = c' * 10 ^ Suc t" by simp
    with t True show ?thesis by (intro exI [of _ "Suc t"]) auto
  next
    case False
    with 1(2) have "c' = c" "e' = e"
      by (subst (asm) strip_zeros.simps, simp)+
    with False show ?thesis by (intro exI [of _ 0]) auto
  qed
qed

lemma str_decimal_integer:
  "str_decimal (Decimal s q 0) = (if s then ''-'' else []) @ str_nat q"
proof -
  have "str_nat q \<noteq> []" by (rule str_nat_nonempty)
  then have "0 < length (str_nat q)" by simp
  then show ?thesis by (simp add: str_decimal_def Let_def)
qed

lemma nearest_even_zero: "0 < m \<Longrightarrow> nearest_even 0 m = 0"
  by (simp add: nearest_even_def)

lemma D_expo: "D t = Inr d \<Longrightarrow> expo d \<le> 0"
  by (auto simp: D_def Let_def split: if_splits)


lemma truediv_power10:
  assumes c: "c \<noteq> 0" and nd: "ndigits c \<le> 28" and e0: "e \<le> 0" and et: "Etiny \<le> e - int k"
  shows "\<exists>u c'. u \<le> k \<and> c = c' * 10 ^ u
           \<and> truediv (Decimal s c e) (Decimal False (10 ^ k) 0)
               = Inr (Decimal s c' (e - int k + int u))"
proof -
  define sh where "sh = k + 30 - ndigits c"
  have shk: "k + 2 \<le> sh" using nd by (simp add: sh_def)
  have shift: "int (ndigits (10 ^ k)) - int (ndigits c) + prec + 1 = int sh"
    using nd by (simp add: ndigits_power10 ctx_bounds sh_def)
  define q where "q = c * 10 ^ (sh - k)"
  have "(10::nat) ^ sh = 10 ^ (sh - k) * 10 ^ k"
    using shk by (simp add: power_add [symmetric])
  then have num: "c * 10 ^ sh = q * 10 ^ k" by (simp add: q_def)
  have qd: "c * 10 ^ sh div 10 ^ k = q" unfolding num by simp
  have qm: "c * 10 ^ sh mod 10 ^ k = 0" unfolding num by simp
  obtain q' ex' where sz: "strip_zeros q (e - int sh) e = (q', ex')"
    by (cases "strip_zeros q (e - int sh) e") auto
  from strip_zeros_spec [OF sz] obtain t where
    t: "q = q' * 10 ^ t" "ex' = e - int sh + int t" "ex' \<le> e" "ex' < e \<longrightarrow> q' mod 10 \<noteq> 0"
    by auto
  have tsh: "t \<le> sh" using t(2,3) by simp
  have tk: "sh - k \<le> t"
  proof (rule ccontr)
    assume "\<not> sh - k \<le> t"
    then have lt: "t < sh - k" by simp
    then have "ex' < e" using t(2) by simp
    with t(4) have nz: "q' mod 10 \<noteq> 0" by simp
    from lt have "(10::nat) ^ (sh - k) = 10 ^ (sh - k - t) * 10 ^ t"
      by (simp add: power_add [symmetric])
    with t(1) have "q' * 10 ^ t = (c * 10 ^ (sh - k - t)) * 10 ^ t"
      by (simp add: q_def)
    then have "q' = c * 10 ^ (sh - k - t)" by simp
    moreover from lt have "(10::nat) ^ (sh - k - t) = 10 * 10 ^ (sh - k - t - 1)"
      by (metis power_Suc Suc_diff_1 zero_less_diff)
    ultimately have "q' mod 10 = 0" by simp
    with nz show False by simp
  qed
  define u where "u = t - (sh - k)"
  have tu: "t = u + (sh - k)" using tk by (simp add: u_def)
  have "q' * 10 ^ u * 10 ^ (sh - k) = c * 10 ^ (sh - k)"
    using t(1) unfolding tu q_def by (simp add: power_add)
  then have cu: "c = q' * 10 ^ u" by simp
  have uk: "u \<le> k" using tsh shk by (simp add: u_def)
  have ex: "ex' = e - int k + int u" using t(2) tk shk by (simp add: u_def)
  have q0: "q' \<noteq> 0" using c cu by auto
  have "q' \<le> c" using cu by simp
  then have ndq: "ndigits q' \<le> 28" using ndigits_mono nd by (meson le_trans)
  have fx: "fix_ctx (Decimal s q' ex') = Inr (Decimal s q' ex')"
    using q0 ndq et e0 ex uk by (intro fix_ctx_id) simp_all
  have "truediv (Decimal s c e) (Decimal False (10 ^ k) 0) = Inr (Decimal s q' ex')"
    using c by (simp add: truediv_def Let_def shift qd qm sz fx)
  with uk cu ex show ?thesis by blast
qed

lemma quantize_integer:
  assumes c: "c \<noteq> 0" and nd: "ndigits c \<le> 28" and e0: "e \<le> 0" and et: "Etiny \<le> e"
  shows "quantize (Decimal s c e) 0 ROUND_HALF_EVEN
           = Inr (Decimal s (nearest_even c (10 ^ nat (- e))) 0)"
proof -
  define j where "j = nat (- e)"
  define q where "q = nearest_even c (10 ^ j)"
  have c28: "c < 10 ^ 28" using ndigits_le_iff [of 28 c] nd by simp
  have rs: "rescale (Decimal s c e) 0 ROUND_HALF_EVEN = Decimal s q 0"
  proof (cases "e = 0")
    case True
    then show ?thesis using c by (simp add: rescale_def q_def j_def nearest_even_one)
  next
    case False
    with e0 have neg: "e < 0" by simp
    show ?thesis
    proof (cases "int (ndigits c) + e < 0")
      case True
      then have "ndigits c < j" by (simp add: j_def)
      then have "ndigits c \<le> j - 1" "0 < j" by simp_all
      have "c < 10 ^ ndigits c"
        using ndigits_le_iff [where n = "ndigits c" and c = c] ndigits_pos [of c] by simp
      also have "\<dots> \<le> 10 ^ (j - 1)"
        using \<open>ndigits c \<le> j - 1\<close> by (intro power_increasing) simp_all
      finally have "2 * c < 2 * 10 ^ (j - 1)" by simp
      also have "\<dots> \<le> 10 * 10 ^ (j - 1)" by simp
      also have "\<dots> = 10 ^ j" using \<open>0 < j\<close> by (metis power_Suc Suc_diff_1)
      finally have "q = 0" unfolding q_def by (rule nearest_even_small)
      moreover have "round_coeff ROUND_HALF_EVEN 1 1 = 0"
        by (simp add: round_coeff_def)
      ultimately show ?thesis using c neg True by (simp add: rescale_def)
    next
      case False
      then show ?thesis using c neg
        by (simp add: rescale_def round_coeff_nearest q_def j_def)
    qed
  qed
  have q28: "q < 10 ^ 28"
  proof (cases "j = 0")
    case True
    then show ?thesis using c28 by (simp add: q_def nearest_even_one)
  next
    case False
    then have "(10::nat) ^ j = 10 * 10 ^ (j - 1)" by (metis power_Suc Suc_diff_1 not_gr_zero)
    then have "c div 10 ^ j = c div 10 div 10 ^ (j - 1)" by (simp add: div_mult2_eq)
    also have "\<dots> \<le> c div 10" by (rule div_le_dividend)
    finally have "q \<le> c div 10 + 1"
      using nearest_even_le [of c "10 ^ j"] unfolding q_def by simp
    moreover have "c div 10 < 10 ^ 27" using c28 by simp
    ultimately show ?thesis by simp
  qed
  then have ndq: "ndigits q \<le> 28" using ndigits_le_iff [of 28 q] by simp
  have fx: "fix_ctx (Decimal s q 0) = Inr (Decimal s q 0)"
  proof (cases "q = 0")
    case True
    then show ?thesis by (simp add: fix_ctx_zero ctx_bounds)
  next
    case False
    then show ?thesis using ndq by (intro fix_ctx_id) (simp_all add: ctx_bounds)
  qed
  have adj: "adjusted (Decimal s c e) \<le> 27"
    using nd e0 by (simp add: adjusted_def)
  have adjq: "adjusted (Decimal s q 0) \<le> 27"
    using ndq by (simp add: adjusted_def)
  show ?thesis
    using c adj adjq ndq e0
    by (simp add: quantize_def Let_def rs fx ctx_bounds q_def [symmetric] j_def [symmetric])
qed


lemma round_negative_value:
  assumes neg: "decimals < 0"
    and nd: "ndigits c \<le> 28"
    and e0: "e \<le> 0"
    and bound: "- decimals - e \<le> 1000026"
  shows "bind_err (truediv (Decimal s c e) (Decimal False (10 ^ nat (- decimals)) 0))
           (\<lambda>d1. quantize d1 0 ROUND_HALF_EVEN)
         = Inr (Decimal s (nearest_even c (10 ^ (nat (- decimals) + nat (- e)))) 0)"
proof -
  define k where "k = nat (- decimals)"
  define f where "f = nat (- e)"
  have et: "Etiny \<le> e - int k" using bound neg by (simp add: k_def ctx_bounds)
  show ?thesis
  proof (cases "c = 0")
    case True
    have "truediv (Decimal s 0 e) (Decimal False (10 ^ k) 0) = Inr (Decimal s 0 e)"
      using et e0 by (simp add: truediv_def fix_ctx_zero)
    moreover have "quantize (Decimal s 0 e) 0 ROUND_HALF_EVEN = Inr (Decimal s 0 0)"
      by (simp add: quantize_def fix_ctx_zero ctx_bounds)
    ultimately show ?thesis
      using True by (simp add: bind_err_def k_def [symmetric] nearest_even_zero)
  next
    case False
    from truediv_power10 [OF False nd e0 et, of s] obtain u c' where
      u: "u \<le> k" "c = c' * 10 ^ u"
        "truediv (Decimal s c e) (Decimal False (10 ^ k) 0)
           = Inr (Decimal s c' (e - int k + int u))"
      by blast
    have c0: "c' \<noteq> 0" using False u(2) by auto
    have "c' \<le> c" using u(2) by simp
    then have ndc: "ndigits c' \<le> 28" using ndigits_mono nd by (meson le_trans)
    have e1: "e - int k + int u \<le> 0" using e0 u(1) by simp
    have et1: "Etiny \<le> e - int k + int u" using et by simp
    have j: "nat (- (e - int k + int u)) + u = k + f"
      using e0 u(1) by (simp add: f_def)
    have "nearest_even c (10 ^ (k + f))
            = nearest_even (c' * 10 ^ u) (10 ^ nat (- (e - int k + int u)) * 10 ^ u)"
      unfolding u(2) j [symmetric] by (simp add: power_add)
    also have "\<dots> = nearest_even c' (10 ^ nat (- (e - int k + int u)))"
      by (rule nearest_even_scale) simp
    finally have ne: "nearest_even c' (10 ^ nat (- (e - int k + int u)))
                        = nearest_even c (10 ^ (k + f))" by simp
    show ?thesis
      unfolding k_def [symmetric] f_def [symmetric] u(3) bind_err_def sum.case
        quantize_integer [OF c0 ndc e1 et1] ne
      by (rule refl)
  qed
qed

text \<open>
  C3. \<^verbatim>\<open>round\<close> with a negative \<open>decimals\<close>, on a text that matches the pattern (after
  the step that rewrites a text in parentheses) and converts to a decimal of at most 28
  digits: the result is the decimal numeral of the integer nearest to the number divided
  by \<open>10 ^ -decimals\<close>, the even one of two equally near, after the sign of the number.
  The quotient is not multiplied back, and the rounding argument of the modifier plays no
  part. The bound on the exponents keeps the quotient above the context's smallest
  exponent. The second conjunct says that the integer is a nearest one.
\<close>

theorem round_negative_decimals:
  assumes "decimals < 0"
    and "v1 = (if startswith v ''('' \<and> endswith v '')'' then CHR ''-'' # butlast (tl v) else v)"
    and "re_match round_pattern v1"
    and "D (replace '','' [] v1) = Inr d"
    and "ndigits (coeff d) \<le> 28"
    and "- decimals - expo d \<le> 1000026"
  shows "RoundNumbers_apply decimals rnd v
           = Inr ((if dsign d then ''-'' else [])
                  @ str_nat (nearest_even (coeff d) (10 ^ (nat (- decimals) + nat (- expo d)))))
         \<and> 2 * \<bar>int (nearest_even (coeff d) (10 ^ (nat (- decimals) + nat (- expo d))))
                  * int (10 ^ (nat (- decimals) + nat (- expo d))) - int (coeff d)\<bar>
             \<le> int (10 ^ (nat (- decimals) + nat (- expo d)))"
proof
  obtain s c e where d: "d = Decimal s c e" by (cases d)
  have e0: "e \<le> 0" using D_expo [OF assms(4)] d by simp
  have val: "bind_err (truediv (Decimal s c e) (Decimal False (10 ^ nat (- decimals)) 0))
           (\<lambda>d1. quantize d1 0 ROUND_HALF_EVEN)
         = Inr (Decimal s (nearest_even c (10 ^ (nat (- decimals) + nat (- e)))) 0)"
    using assms(1,5,6) e0 d by (intro round_negative_value) simp_all
  have "RoundNumbers_apply decimals rnd v
          = map_sum id str_decimal
              (bind_err (truediv d (Decimal False (10 ^ nat (- decimals)) 0))
                 (\<lambda>d1. quantize d1 0 ROUND_HALF_EVEN))"
    unfolding RoundNumbers_apply_def Let_def assms(2) [symmetric]
    using assms(1,3,4) by (simp add: bind_err_def split: sum.splits)
  then show "RoundNumbers_apply decimals rnd v
           = Inr ((if dsign d then ''-'' else [])
                  @ str_nat (nearest_even (coeff d) (10 ^ (nat (- decimals) + nat (- expo d)))))"
    unfolding d val by (simp add: str_decimal_integer)
  show "2 * \<bar>int (nearest_even (coeff d) (10 ^ (nat (- decimals) + nat (- expo d))))
                  * int (10 ^ (nat (- decimals) + nat (- expo d))) - int (coeff d)\<bar>
             \<le> int (10 ^ (nat (- decimals) + nat (- expo d)))"
    by (rule nearest_even_near) simp
qed

lemma round_1534:
  "re_match round_pattern ''1534''"
  "D (replace '','' [] ''1534'') = Inr (Decimal False 1534 0)"
  "RoundNumbers_apply (- 2) None ''1534'' = Inr ''15''"
  by (simp_all add: RoundNumbers_apply_def eval_str eval_re eval_dec)

lemma round_2550:
  "re_match round_pattern ''-2,550.5''"
  "D ''-2550.5'' = Inr (Decimal True 25505 (- 1))"
  by (simp_all add: eval_str eval_re eval_dec)

text \<open>
  \<^verbatim>\<open>round(-2)\<close> on \<open>1534\<close> gives \<open>15\<close>, and \<^verbatim>\<open>round(-1,down)\<close> on \<open>(2,550.5)\<close> gives
  \<open>-255\<close>.
\<close>

theorem round_negative_decimals_witness:
  "RoundNumbers_apply (- 2) None ''1534'' = Inr ''15''
   \<and> nearest_even 1534 (10 ^ 2) = 15
   \<and> RoundNumbers_apply (- 1) (Some ROUND_DOWN) ''(2,550.5)'' = Inr ''-255''"
  using round_negative_decimals [where decimals = "- 2" and v = "''1534''" and ?v1.0 = "''1534''"
      and d = "Decimal False 1534 0" and rnd = None]
    round_negative_decimals [where decimals = "- 1" and v = "''(2,550.5)''"
      and ?v1.0 = "''-2,550.5''" and d = "Decimal True 25505 (- 1)" and rnd = "Some ROUND_DOWN"]
  by (simp add: round_1534 round_2550 ndigits_def eval_str nearest_even_def)

text \<open>
  \<^verbatim>\<open>round(-2)\<close> on \<open>1534\<close> does not give \<open>1500\<close>, the nearest multiple of 100.
\<close>

theorem round_negative_counterexample:
  "re_match round_pattern ''1534''
   \<and> RoundNumbers_apply (- 2) None ''1534'' = Inr ''15''
   \<and> RoundNumbers_apply (- 2) None ''1534'' \<noteq> Inr ''1500''"
  by (simp add: round_1534)

end
